theory Spec2Isabelle
  imports Main "HOL-Library.Sublist" "HOL-Library.Log_Nat"
begin

section \<open>Runtime values: strings\<close>

text \<open>
  The application is a single React component (\<^verbatim>\<open>src/src/App.tsx\<close>).  Its state is
  a tuple of \<^verbatim>\<open>useState\<close> cells, its operations are the event handlers that the
  rendered screens bind to buttons and inputs, plus the callbacks of timers and of the
  camera promise.

  A JavaScript string is a sequence of UTF-16 code units.  It is modelled by
  \<^typ>\<open>string\<close>, whose characters are the code units \<open>0x00 .. 0xFF\<close> (Basic Latin and
  Latin-1 Supplement); on them \<^verbatim>\<open>trim\<close>, \<^verbatim>\<open>toLowerCase\<close> and \<^verbatim>\<open>includes\<close> are
  written out below as ECMAScript defines them.  Text with code units above \<open>0xFF\<close>
  is outside the model.
\<close>

definition isWhiteSpace :: "char \<Rightarrow> bool" where
  \<comment> \<open>ECMAScript WhiteSpace and LineTerminator below \<open>0x100\<close>: TAB, LF, VT, FF, CR, SP, NBSP.\<close>
  "isWhiteSpace c = (c \<in> set [CHR 0x09, CHR 0x0A, CHR 0x0B, CHR 0x0C, CHR 0x0D, CHR 0x20, CHR 0xA0])"

definition trim :: "string \<Rightarrow> string" where
  \<comment> \<open>\<^verbatim>\<open>String.prototype.trim\<close>\<close>
  "trim s = rev (dropWhile isWhiteSpace (rev (dropWhile isWhiteSpace s)))"

definition toLower_char :: "char \<Rightarrow> char" where
  \<comment> \<open>upper-case letters below \<open>0x100\<close>: A-Z and the Latin-1 capitals except the sign \<open>0xD7\<close>\<close>
  "toLower_char c =
     (let n = (of_char c :: nat)
      in if (65 \<le> n \<and> n \<le> 90) \<or> (192 \<le> n \<and> n \<le> 222 \<and> n \<noteq> 215)
         then char_of (n + 32) else c)"

definition toLowerCase :: "string \<Rightarrow> string" where
  \<comment> \<open>\<^verbatim>\<open>String.prototype.toLowerCase\<close>\<close>
  "toLowerCase s = map toLower_char s"

fun str_includes :: "string \<Rightarrow> string \<Rightarrow> bool" where
  \<comment> \<open>\<^verbatim>\<open>s.includes(q)\<close>: \<open>q\<close> occurs in \<open>s\<close> as a contiguous run of code units\<close>
  "str_includes [] q = (q = [])"
| "str_includes (c # cs) q = (prefix q (c # cs) \<or> str_includes cs q)"

definition removeCommas :: "string \<Rightarrow> string" where
  \<comment> \<open>\<^verbatim>\<open>s.replace(/,/g, "")\<close>\<close>
  "removeCommas s = filter (\<lambda>c. c \<noteq> CHR '','') s"

section \<open>Runtime values: numbers\<close>

text \<open>
  A JavaScript number is an IEEE 754 binary64 value.  \<open>Fin q\<close> is the finite double with
  the rational value \<open>q\<close>; the two zeros are identified (no operation of the modelled
  code tells them apart).  Every arithmetic operation computes the exact result and rounds
  it to the nearest double, ties to even (\<open>fl\<close>), overflowing to an infinity.
\<close>

datatype jsnum = NaN | NegInf | Fin rat | PosInf

definition ilog2 :: "rat \<Rightarrow> int" where
  \<comment> \<open>the binary exponent \<open>\<lfloor>log\<^sub>2 a\<rfloor>\<close> of a positive rational\<close>
  "ilog2 a = (case quotient_of a of (p, q) \<Rightarrow>
     (let d = int (floorlog 2 (nat p)) - int (floorlog 2 (nat q))
      in if 2 powi d \<le> a then d else d - 1))"

definition round_half_even :: "rat \<Rightarrow> int" where
  "round_half_even y =
     (let f = \<lfloor>y\<rfloor>; r = y - of_int f
      in if r < 1 / 2 then f else if 1 / 2 < r then f + 1
         else if even f then f else f + 1)"

definition fl :: "rat \<Rightarrow> jsnum" where
  \<comment> \<open>round to nearest binary64: 53 significant bits, least exponent \<open>-1022\<close>
      (subnormals are multiples of \<open>2\<^sup>-\<^sup>1\<^sup>0\<^sup>7\<^sup>4\<close>), overflow at \<open>2\<^sup>1\<^sup>0\<^sup>2\<^sup>4\<close>\<close>
  "fl x =
     (if x = 0 then Fin 0
      else let a = \<bar>x\<bar>;
               e = max (ilog2 a) (- 1022);
               q = 2 powi (e - 52);
               m = of_int (round_half_even (a / q)) * q
           in if 2 powi 1024 \<le> m then (if 0 < x then PosInf else NegInf)
              else Fin (if 0 < x then m else - m))"

fun js_neg :: "jsnum \<Rightarrow> jsnum" where
  "js_neg NaN = NaN"
| "js_neg NegInf = PosInf"
| "js_neg PosInf = NegInf"
| "js_neg (Fin a) = Fin (- a)"

fun js_add :: "jsnum \<Rightarrow> jsnum \<Rightarrow> jsnum" where
  "js_add (Fin a) (Fin b) = fl (a + b)"
| "js_add NaN _ = NaN"
| "js_add _ NaN = NaN"
| "js_add PosInf NegInf = NaN"
| "js_add NegInf PosInf = NaN"
| "js_add PosInf _ = PosInf"
| "js_add NegInf _ = NegInf"
| "js_add _ PosInf = PosInf"
| "js_add _ NegInf = NegInf"

definition js_sub :: "jsnum \<Rightarrow> jsnum \<Rightarrow> jsnum" where
  "js_sub x y = js_add x (js_neg y)"

fun js_sign :: "jsnum \<Rightarrow> int" where
  \<comment> \<open>\<open>-1\<close>, \<open>0\<close> or \<open>1\<close>; not used on NaN\<close>
  "js_sign (Fin a) = (if a = 0 then 0 else if 0 < a then 1 else - 1)"
| "js_sign PosInf = 1"
| "js_sign NegInf = - 1"
| "js_sign NaN = 0"

fun js_mul :: "jsnum \<Rightarrow> jsnum \<Rightarrow> jsnum" where
  "js_mul (Fin a) (Fin b) = fl (a * b)"
| "js_mul NaN _ = NaN"
| "js_mul _ NaN = NaN"
| "js_mul x y =
     (let s = js_sign x * js_sign y
      in if s = 0 then NaN else if 0 < s then PosInf else NegInf)"

fun js_div :: "jsnum \<Rightarrow> jsnum \<Rightarrow> jsnum" where
  \<comment> \<open>a zero divisor counts as \<open>+0\<close>; the program divides by the literal 100 only\<close>
  "js_div NaN _ = NaN"
| "js_div _ NaN = NaN"
| "js_div (Fin a) (Fin b) =
     (if b = 0 then (if a = 0 then NaN else if 0 < a then PosInf else NegInf)
      else fl (a / b))"
| "js_div (Fin a) _ = Fin 0"
| "js_div x (Fin b) =
     (if (0 \<le> b) = (x = PosInf) then PosInf else NegInf)"
| "js_div _ _ = NaN"

fun js_less :: "jsnum \<Rightarrow> jsnum \<Rightarrow> bool" where
  \<comment> \<open>\<^verbatim>\<open>x < y\<close>: false as soon as one side is NaN\<close>
  "js_less NaN _ = False"
| "js_less _ NaN = False"
| "js_less (Fin a) (Fin b) = (a < b)"
| "js_less NegInf y = (y \<noteq> NegInf)"
| "js_less x PosInf = (x \<noteq> PosInf)"
| "js_less _ _ = False"

definition js_greater :: "jsnum \<Rightarrow> jsnum \<Rightarrow> bool" where
  \<comment> \<open>\<^verbatim>\<open>x > y\<close>\<close>
  "js_greater x y = js_less y x"

definition js_le :: "jsnum \<Rightarrow> jsnum \<Rightarrow> bool" where
  \<comment> \<open>\<^verbatim>\<open>x <= y\<close>\<close>
  "js_le x y = (x \<noteq> NaN \<and> y \<noteq> NaN \<and> \<not> js_less y x)"

definition js_truthy :: "jsnum \<Rightarrow> bool" where
  \<comment> \<open>ToBoolean of a number: zero and NaN are falsy\<close>
  "js_truthy x = (x \<noteq> NaN \<and> x \<noteq> Fin 0)"

fun Math_round :: "jsnum \<Rightarrow> jsnum" where
  \<comment> \<open>\<^verbatim>\<open>Math.round\<close>: the nearest integer, a tie goes up\<close>
  "Math_round (Fin a) = Fin (of_int \<lfloor>a + 1 / 2\<rfloor>)"
| "Math_round x = x"

fun Math_floor :: "jsnum \<Rightarrow> jsnum" where
  "Math_floor (Fin a) = Fin (of_int \<lfloor>a\<rfloor>)"
| "Math_floor x = x"

definition Math_max :: "jsnum \<Rightarrow> jsnum \<Rightarrow> jsnum" where
  "Math_max x y = (if x = NaN \<or> y = NaN then NaN else if js_less x y then y else x)"


subsection \<open>Strings to numbers and back\<close>

definition isDigit :: "char \<Rightarrow> bool" where
  "isDigit c = (let n = (of_char c :: nat) in 48 \<le> n \<and> n \<le> 57)"

definition hexDigitValue :: "char \<Rightarrow> nat option" where
  "hexDigitValue c =
     (let n = (of_char c :: nat)
      in if 48 \<le> n \<and> n \<le> 57 then Some (n - 48)
         else if 65 \<le> n \<and> n \<le> 70 then Some (n - 55)
         else if 97 \<le> n \<and> n \<le> 102 then Some (n - 87)
         else None)"

definition digitsValue :: "nat \<Rightarrow> string \<Rightarrow> nat" where
  \<comment> \<open>the value of a run of digits in the given base\<close>
  "digitsValue base ds = foldl (\<lambda>acc c. acc * base + (case hexDigitValue c of None \<Rightarrow> 0 | Some v \<Rightarrow> v)) 0 ds"

definition parseRadix :: "nat \<Rightarrow> string \<Rightarrow> jsnum" where
  \<comment> \<open>the digits after \<^verbatim>\<open>0x\<close>, \<^verbatim>\<open>0o\<close> or \<^verbatim>\<open>0b\<close>\<close>
  "parseRadix base ds =
     (if ds \<noteq> [] \<and> list_all (\<lambda>c. case hexDigitValue c of None \<Rightarrow> False | Some v \<Rightarrow> v < base) ds
      then fl (of_nat (digitsValue base ds)) else NaN)"

definition parseExponent :: "string \<Rightarrow> int option" where
  \<comment> \<open>ExponentPart, or nothing\<close>
  "parseExponent r =
     (case r of
        [] \<Rightarrow> Some 0
      | c # t \<Rightarrow>
          if c = CHR ''e'' \<or> c = CHR ''E'' then
            (let neg = (t \<noteq> [] \<and> hd t = CHR ''-'');
                 ds = (if t \<noteq> [] \<and> (hd t = CHR ''+'' \<or> hd t = CHR ''-'') then tl t else t)
             in if ds \<noteq> [] \<and> list_all isDigit ds
                then Some ((if neg then - 1 else 1) * int (digitsValue 10 ds))
                else None)
          else None)"

definition parseUnsignedDecimal :: "string \<Rightarrow> rat option" where
  \<comment> \<open>StrUnsignedDecimalLiteral without \<^verbatim>\<open>Infinity\<close>: digits, a fraction, an exponent;
      the mathematical value of the literal\<close>
  "parseUnsignedDecimal u =
     (let ip = takeWhile isDigit u;
          r1 = dropWhile isDigit u;
          hasDot = (r1 \<noteq> [] \<and> hd r1 = CHR ''.'');
          fp = (if hasDot then takeWhile isDigit (tl r1) else []);
          r2 = (if hasDot then dropWhile isDigit (tl r1) else r1)
      in if ip = [] \<and> fp = [] then None
         else case parseExponent r2 of
                None \<Rightarrow> None
              | Some ex \<Rightarrow>
                  Some (of_nat (digitsValue 10 (ip @ fp)) * 10 powi (ex - int (length fp))))"

definition js_Number :: "string \<Rightarrow> jsnum" where
  \<comment> \<open>\<^verbatim>\<open>Number(s)\<close> on a string (ECMAScript StringToNumber): surrounding white space is
      dropped, the empty string is \<open>0\<close>, a literal that is not a StringNumericLiteral is NaN,
      and the value of a literal is rounded to the nearest double\<close>
  "js_Number s =
     (let t = trim s
      in if t = [] then Fin 0
         else if take 2 t = ''0x'' \<or> take 2 t = ''0X'' then parseRadix 16 (drop 2 t)
         else if take 2 t = ''0o'' \<or> take 2 t = ''0O'' then parseRadix 8 (drop 2 t)
         else if take 2 t = ''0b'' \<or> take 2 t = ''0B'' then parseRadix 2 (drop 2 t)
         else let neg = (hd t = CHR ''-'');
                  u = (if hd t = CHR ''+'' \<or> hd t = CHR ''-'' then tl t else t)
              in if u = ''Infinity'' then (if neg then NegInf else PosInf)
                 else case parseUnsignedDecimal u of
                        None \<Rightarrow> NaN
                      | Some v \<Rightarrow> fl (if neg then - v else v))"

fun toString_nat :: "nat \<Rightarrow> string" where
  \<comment> \<open>decimal digits, most significant first\<close>
  "toString_nat n =
     (if n < 10 then [char_of (48 + n)]
      else toString_nat (n div 10) @ [char_of (48 + n mod 10)])"

declare toString_nat.simps [simp del]

definition toString_int :: "int \<Rightarrow> string" where
  "toString_int i = (if i < 0 then CHR ''-'' # toString_nat (nat (- i)) else toString_nat (nat i))"

fun toString_num :: "jsnum \<Rightarrow> string" where
  \<comment> \<open>Number::toString, as the template literals apply it.  Only integral values below
      \<open>10\<^sup>2\<^sup>1\<close> reach it in this program (a calendar year, the result of \<^verbatim>\<open>Math.floor\<close>,
      the quick amounts); the digits of other finite values are not modelled.\<close>
  "toString_num NaN = ''NaN''"
| "toString_num PosInf = ''Infinity''"
| "toString_num NegInf = ''-Infinity''"
| "toString_num (Fin a) = toString_int \<lfloor>a\<rfloor>"


section \<open>The data model\<close>

text \<open>
  The types of \<^verbatim>\<open>App.tsx\<close>.  Field names carry the name of their record
  (\<open>draft_\<close>, \<open>detail_\<close>, \<open>entry_\<close>), because three of the source's types share the
  fields \<^verbatim>\<open>recipient\<close>, \<^verbatim>\<open>amount\<close> and \<^verbatim>\<open>note\<close>.  A timestamp is the integer
  number of milliseconds that \<^verbatim>\<open>Date.now()\<close> returns.
\<close>

datatype Screen = Login | Home | Transfer | Confirm | Success | History | Offline | OfflineSuccess

datatype Direction = Sent | Received

datatype HistoryFilter = FilterAll | FilterOnly Direction

datatype BiometricStatus = BioIdle | Verifying | Verified

datatype CameraStatus = CamIdle | Requesting | Scanning | CamError

record TransferDraft =
  draft_recipient :: string
  draft_amount :: string
  draft_note :: string

record TransferDetail =
  detail_recipient :: string
  detail_amount :: jsnum
  detail_note :: string
  detail_reference :: string
  detail_timestamp :: int

record HistoryEntry =
  entry_id :: string
  entry_recipient :: string
  entry_note :: string
  entry_amount :: jsnum
  entry_direction :: Direction
  entry_timestamp :: int

text \<open>
  A callback that the program has handed to the runtime and that has not run yet: the
  two chained timers of \<^verbatim>\<open>handleFingerprint\<close> (each closes over the pending transfer of
  the render that created it), the promise of \<^verbatim>\<open>getUserMedia\<close> and the timer of the
  simulated scan (both close over the \<^verbatim>\<open>cameraStream\<close> of the render in which the scan
  was started, through \<^verbatim>\<open>stopCameraStream\<close>), and the boot splash timer.
\<close>

datatype Task =
    VerifyTimer TransferDetail
  | FinalizeTimer TransferDetail
  | CameraRequest "nat option"
  | ScanTimer "nat option"
  | BootTimer

record AppState =
  screen :: Screen
  isBooting :: bool
  userName :: string
  loginName :: string
  loginPin :: string
  rememberMe :: bool
  loginError :: string
  draft :: TransferDraft
  pendingTransfer :: "TransferDetail option"
  lastTransfer :: "TransferDetail option"
  history :: "HistoryEntry list"
  balance :: jsnum
  transferError :: string
  historyFilter :: HistoryFilter
  historySearch :: string
  biometricStatus :: BiometricStatus
  cameraStatus :: CameraStatus
  cameraError :: string
  offlineScanResult :: string
  offlineRecordedAt :: "int option"
  cameraStream :: "nat option"
  tasks :: "Task list"

definition quickAmounts :: "jsnum list" where
  "quickAmounts = [Fin 500, Fin 1000, Fin 2000, Fin 5000]"

definition seededHistory :: "int \<Rightarrow> HistoryEntry list" where
  \<comment> \<open>the argument is \<^verbatim>\<open>Date.now()\<close> at the time the module is loaded\<close>
  "seededHistory t0 =
     [ \<lparr>entry_id = ''TP-2026-00018'', entry_recipient = ''Kevin at work'',
        entry_note = ''Reimbursement for tickets'', entry_amount = Fin 4000,
        entry_direction = Sent, entry_timestamp = t0 - 1000 * 60 * 60 * 3\<rparr>,
       \<lparr>entry_id = ''TP-2026-00017'', entry_recipient = ''Asha Fernando'',
        entry_note = ''Dinner split from Friday'', entry_amount = Fin 6200,
        entry_direction = Sent, entry_timestamp = t0 - 1000 * 60 * 60 * 26\<rparr>,
       \<lparr>entry_id = ''TP-2026-00016'', entry_recipient = ''Salary'',
        entry_note = ''November payroll'', entry_amount = Fin 145000,
        entry_direction = Received, entry_timestamp = t0 - 1000 * 60 * 60 * 72\<rparr> ]"

definition defaultDraft :: TransferDraft where
  "defaultDraft = \<lparr>draft_recipient = [], draft_amount = [], draft_note = []\<rparr>"

definition generateReferenceId :: "int \<Rightarrow> rat \<Rightarrow> string" where
  \<comment> \<open>the arguments are \<^verbatim>\<open>new Date().getFullYear()\<close> and the draw of \<^verbatim>\<open>Math.random()\<close>\<close>
  "generateReferenceId year rnd =
     ''TP-'' @ toString_int year @ ''-''
       @ toString_num (Math_floor (js_add (Fin 10000) (js_mul (Fin rnd) (Fin 90000))))"

definition initialState :: "int \<Rightarrow> AppState" where
  \<comment> \<open>the initial values of the \<^verbatim>\<open>useState\<close> cells; the boot timer is running\<close>
  "initialState t0 =
     \<lparr>screen = Login, isBooting = True, userName = [], loginName = ''Chinthana'',
      loginPin = [], rememberMe = True, loginError = [], draft = defaultDraft,
      pendingTransfer = None, lastTransfer = None, history = seededHistory t0,
      balance = Fin 125000, transferError = [], historyFilter = FilterAll,
      historySearch = [], biometricStatus = BioIdle, cameraStatus = CamIdle,
      cameraError = [], offlineScanResult = [], offlineRecordedAt = None,
      cameraStream = None, tasks = [BootTimer]\<rparr>"

definition isLoggedIn :: "AppState \<Rightarrow> bool" where
  \<comment> \<open>\<^verbatim>\<open>Boolean(userName)\<close>\<close>
  "isLoggedIn s = (userName s \<noteq> [])"

section \<open>The history view\<close>

definition filteredHistory :: "HistoryEntry list \<Rightarrow> HistoryFilter \<Rightarrow> string \<Rightarrow> HistoryEntry list" where
  "filteredHistory hist flt search =
     (let query = toLowerCase (trim search)
      in filter (\<lambda>entry.
           let matchesFilter = (flt = FilterAll \<or> FilterOnly (entry_direction entry) = flt);
               matchesSearch =
                 (query = []
                  \<or> str_includes (toLowerCase (entry_recipient entry)) query
                  \<or> str_includes (toLowerCase (entry_note entry)) query)
           in matchesFilter \<and> matchesSearch) hist)"

section \<open>The event handlers\<close>

definition handleLogin :: "AppState \<Rightarrow> AppState" where
  "handleLogin s =
     (if trim (loginName s) = [] then s\<lparr>loginError := ''Please enter your name''\<rparr>
      else let s1 = s\<lparr>userName := trim (loginName s), loginError := [], screen := Home\<rparr>
           in if \<not> rememberMe s then s1\<lparr>loginPin := []\<rparr> else s1)"

definition handleBack :: "AppState \<Rightarrow> AppState" where
  "handleBack s =
     (if screen s = Transfer then s\<lparr>screen := Home\<rparr>
      else if screen s = Confirm then s\<lparr>screen := Transfer\<rparr>
      else if screen s = History then s\<lparr>screen := Home\<rparr>
      else if screen s = Success then s\<lparr>screen := Home\<rparr>
      else if screen s = Offline then s\<lparr>screen := Transfer\<rparr>
      else if screen s = OfflineSuccess then s\<lparr>screen := Transfer\<rparr>
      else s)"

definition amountValue :: "TransferDraft \<Rightarrow> jsnum" where
  \<comment> \<open>\<^verbatim>\<open>Number(draft.amount.toString().replace(/,/g, ""))\<close>\<close>
  "amountValue d = js_Number (removeCommas (draft_amount d))"

definition handleContinueToConfirm :: "int \<Rightarrow> int \<Rightarrow> rat \<Rightarrow> AppState \<Rightarrow> AppState" where
  \<comment> \<open>the first three arguments are what the handler reads from its environment:
      \<^verbatim>\<open>Date.now()\<close>, the calendar year and the draw of \<^verbatim>\<open>Math.random()\<close>\<close>
  "handleContinueToConfirm now year rnd s =
     (let v = amountValue (draft s)
      in if trim (draft_recipient (draft s)) = [] then s\<lparr>transferError := ''Add a recipient name''\<rparr>
         else if \<not> js_truthy v \<or> js_le v (Fin 0) then s\<lparr>transferError := ''Enter an amount above LKR 0''\<rparr>
         else if js_greater v (balance s) then s\<lparr>transferError := ''Insufficient balance''\<rparr>
         else let detail =
                    \<lparr>detail_recipient = trim (draft_recipient (draft s)),
                     detail_amount = js_div (Math_round (js_mul v (Fin 100))) (Fin 100),
                     detail_note = trim (draft_note (draft s)),
                     detail_reference = generateReferenceId year rnd,
                     detail_timestamp = now\<rparr>
              in s\<lparr>transferError := [], pendingTransfer := Some detail, screen := Confirm\<rparr>)"

definition finalizeTransfer :: "int \<Rightarrow> TransferDetail \<Rightarrow> AppState \<Rightarrow> AppState" where
  \<comment> \<open>the first argument is \<^verbatim>\<open>Date.now()\<close>\<close>
  "finalizeTransfer now detail s =
     (let completed = detail\<lparr>detail_timestamp := now\<rparr>;
          entry = \<lparr>entry_id = detail_reference completed,
                   entry_recipient = detail_recipient completed,
                   entry_note = detail_note completed,
                   entry_amount = detail_amount completed,
                   entry_direction = Sent,
                   entry_timestamp = detail_timestamp completed\<rparr>
      in s\<lparr>history := entry # history s,
           balance := Math_max (Fin 0) (js_sub (balance s) (detail_amount completed)),
           lastTransfer := Some completed,
           draft := defaultDraft,
           pendingTransfer := None,
           biometricStatus := BioIdle,
           screen := Success\<rparr>)"

definition handleFingerprint :: "AppState \<Rightarrow> AppState" where
  \<comment> \<open>up to the first \<^verbatim>\<open>setTimeout\<close>, which it leaves as a task\<close>
  "handleFingerprint s =
     (case pendingTransfer s of
        None \<Rightarrow> s\<lparr>screen := Transfer\<rparr>
      | Some d \<Rightarrow> s\<lparr>biometricStatus := Verifying, tasks := tasks s @ [VerifyTimer d]\<rparr>)"

definition handleBottomNav :: "Screen \<Rightarrow> AppState \<Rightarrow> AppState" where
  "handleBottomNav next s =
     (if \<not> isLoggedIn s then s
      else if next = Confirm \<or> next = Success \<or> next = Offline \<or> next = OfflineSuccess then s
      else s\<lparr>screen := next\<rparr>)"

definition handleStartQrScan :: "bool \<Rightarrow> AppState \<Rightarrow> AppState" where
  \<comment> \<open>up to the \<^verbatim>\<open>await\<close> of \<^verbatim>\<open>getUserMedia\<close>, which it leaves as a task; the first
      argument says whether \<^verbatim>\<open>navigator.mediaDevices?.getUserMedia\<close> exists\<close>
  "handleStartQrScan hasCamera s =
     (if cameraStatus s = Requesting \<or> cameraStatus s = Scanning then s
      else let s1 = s\<lparr>cameraError := [], offlineScanResult := []\<rparr>
           in if \<not> hasCamera
              then s1\<lparr>cameraError := ''Camera not supported in this browser.'', cameraStatus := CamError\<rparr>
              else s1\<lparr>cameraStatus := Requesting, tasks := tasks s1 @ [CameraRequest (cameraStream s)]\<rparr>)"

definition stopCameraStream :: "nat option \<Rightarrow> AppState \<Rightarrow> AppState" where
  \<comment> \<open>the first argument is the \<^verbatim>\<open>cameraStream\<close> that this instance of the callback closed over\<close>
  "stopCameraStream captured s = (if captured \<noteq> None then s\<lparr>cameraStream := None\<rparr> else s)"

definition renderScreen :: "AppState \<Rightarrow> AppState" where
  \<comment> \<open>the state change that \<^verbatim>\<open>renderScreen\<close> makes before it picks a screen\<close>
  "renderScreen s = (if \<not> isLoggedIn s \<and> screen s \<noteq> Login then s\<lparr>screen := Login\<rparr> else s)"


section \<open>The transition system\<close>

text \<open>
  One event is one run of a handler or of a callback.  The values that a handler reads
  from its environment travel with the event: the clock, the calendar year, the random
  draw, and for the camera promise its outcome (\<open>Some\<close> stream, or \<open>None\<close> when the
  request is rejected).
\<close>

datatype Event =
    SetLoginName string
  | SetLoginPin string
  | SetRememberMe bool
  | ClickLogin
  | ClickBack
  | ClickGoto Screen
  | SetRecipient string
  | SetAmount string
  | ClickQuickAmount nat
  | SetNote string
  | ClickContinue int int rat
  | ClickFingerprint
  | ClickSendAnother
  | ClickStartQrScan
  | SetHistorySearch string
  | SetHistoryFilter HistoryFilter
  | ClickBottomNav Screen
  | RunTask nat int rat "nat option"
  | OfflineEffectCleanup "nat option"
  | StreamEffectCleanup "nat option"

definition runTask :: "int \<Rightarrow> rat \<Rightarrow> nat option \<Rightarrow> Task \<Rightarrow> AppState \<Rightarrow> AppState" where
  \<comment> \<open>the bodies of the callbacks\<close>
  "runTask now rnd outcome t s =
     (case t of
        VerifyTimer d \<Rightarrow> s\<lparr>biometricStatus := Verified, tasks := tasks s @ [FinalizeTimer d]\<rparr>
      | FinalizeTimer d \<Rightarrow> finalizeTransfer now d s
      | CameraRequest captured \<Rightarrow>
          (case outcome of
             Some stream \<Rightarrow>
               s\<lparr>cameraStream := Some stream, cameraStatus := Scanning,
                  tasks := tasks s @ [ScanTimer captured]\<rparr>
           | None \<Rightarrow>
               s\<lparr>cameraError := ''Camera permission denied or unavailable.'',
                  cameraStatus := CamError\<rparr>)
      | ScanTimer captured \<Rightarrow>
          (stopCameraStream captured s)
            \<lparr>cameraStatus := CamIdle,
             offlineScanResult :=
               ''QR-'' @ toString_num (Math_floor (js_add (Fin 100000) (js_mul (Fin rnd) (Fin 900000)))),
             offlineRecordedAt := Some now,
             screen := OfflineSuccess\<rparr>
      | BootTimer \<Rightarrow> s\<lparr>isBooting := False\<rparr>)"

definition handle :: "bool \<Rightarrow> Event \<Rightarrow> AppState \<Rightarrow> AppState" where
  "handle hasCamera ev s =
     (case ev of
        SetLoginName x \<Rightarrow> s\<lparr>loginName := x\<rparr>
      | SetLoginPin x \<Rightarrow> s\<lparr>loginPin := x\<rparr>
      | SetRememberMe b \<Rightarrow> s\<lparr>rememberMe := b\<rparr>
      | ClickLogin \<Rightarrow> handleLogin s
      | ClickBack \<Rightarrow> handleBack s
      | ClickGoto t \<Rightarrow> s\<lparr>screen := t\<rparr>
      | SetRecipient x \<Rightarrow> s\<lparr>draft := (draft s)\<lparr>draft_recipient := x\<rparr>\<rparr>
      | SetAmount x \<Rightarrow> s\<lparr>draft := (draft s)\<lparr>draft_amount := x\<rparr>\<rparr>
      | ClickQuickAmount i \<Rightarrow>
          if i < length quickAmounts
          then s\<lparr>draft := (draft s)\<lparr>draft_amount := toString_num (quickAmounts ! i)\<rparr>\<rparr>
          else s
      | SetNote x \<Rightarrow> s\<lparr>draft := (draft s)\<lparr>draft_note := x\<rparr>\<rparr>
      | ClickContinue now year rnd \<Rightarrow> handleContinueToConfirm now year rnd s
      | ClickFingerprint \<Rightarrow> handleFingerprint s
      | ClickSendAnother \<Rightarrow> s\<lparr>draft := defaultDraft, screen := Transfer\<rparr>
      | ClickStartQrScan \<Rightarrow> handleStartQrScan hasCamera s
      | SetHistorySearch x \<Rightarrow> s\<lparr>historySearch := x\<rparr>
      | SetHistoryFilter f \<Rightarrow> s\<lparr>historyFilter := f\<rparr>
      | ClickBottomNav t \<Rightarrow> handleBottomNav t s
      | RunTask i now rnd outcome \<Rightarrow>
          if i < length (tasks s)
          then runTask now rnd outcome (tasks s ! i)
                 (s\<lparr>tasks := take i (tasks s) @ drop (Suc i) (tasks s)\<rparr>)
          else s
      | OfflineEffectCleanup captured \<Rightarrow> (stopCameraStream captured s)\<lparr>cameraStatus := CamIdle\<rparr>
      | StreamEffectCleanup captured \<Rightarrow> stopCameraStream captured s)"

definition gotoButton :: "AppState \<Rightarrow> Screen \<Rightarrow> bool" where
  \<comment> \<open>the buttons whose handler is a bare \<^verbatim>\<open>setScreen(t)\<close>, by the screen that shows them\<close>
  "gotoButton s t =
     (case screen s of
        Login \<Rightarrow> False
      | Home \<Rightarrow> t = Transfer \<or> t = History
      | Transfer \<Rightarrow> t = Offline
      | Confirm \<Rightarrow> t = Transfer
      | Success \<Rightarrow> t = History \<or> t = Home
      | History \<Rightarrow>
          t = Transfer \<and> filteredHistory (history s) (historyFilter s) (historySearch s) = []
      | Offline \<Rightarrow> t = Transfer
      | OfflineSuccess \<Rightarrow> t = History \<or> t = Transfer \<or> t = Home)"

definition enabled :: "AppState \<Rightarrow> Event \<Rightarrow> bool" where
  \<comment> \<open>The events that a state offers: a control can be used on the screen that renders
      it, a task can run once it is scheduled.  The simplifications only add behaviour:
      tasks run in any order and at any time; the clean-up functions of the two camera
      effects run at any time; the \<^verbatim>\<open>disabled\<close> attributes (of Continue by
      \<^verbatim>\<open>canContinue\<close>, of the fingerprint button while verifying), the hiding of the
      navigation bar and of the fingerprint button, and the splash that covers the
      controls while booting are ignored, so that the handlers run on their own checks.\<close>
  "enabled s ev =
     (case ev of
        SetLoginName _ \<Rightarrow> screen s = Login
      | SetLoginPin _ \<Rightarrow> screen s = Login
      | SetRememberMe _ \<Rightarrow> screen s = Login
      | ClickLogin \<Rightarrow> screen s = Login
      | ClickBack \<Rightarrow> screen s \<noteq> Login \<and> screen s \<noteq> Home
      | ClickGoto t \<Rightarrow> gotoButton s t
      | SetRecipient _ \<Rightarrow> screen s = Transfer
      | SetAmount _ \<Rightarrow> screen s = Transfer
      | ClickQuickAmount i \<Rightarrow> screen s = Transfer \<and> i < length quickAmounts
      | SetNote _ \<Rightarrow> screen s = Transfer
      | ClickContinue _ _ _ \<Rightarrow> screen s = Transfer
      | ClickFingerprint \<Rightarrow> screen s = Confirm
      | ClickSendAnother \<Rightarrow> screen s = Success
      | ClickStartQrScan \<Rightarrow> screen s = Offline
      | SetHistorySearch _ \<Rightarrow> screen s = History
      | SetHistoryFilter _ \<Rightarrow> screen s = History
      | ClickBottomNav _ \<Rightarrow> True
      | RunTask i _ _ _ \<Rightarrow> i < length (tasks s)
      | OfflineEffectCleanup _ \<Rightarrow> True
      | StreamEffectCleanup _ \<Rightarrow> True)"

definition step :: "bool \<Rightarrow> Event \<Rightarrow> AppState \<Rightarrow> AppState" where
  \<comment> \<open>a handler runs, then the component renders\<close>
  "step hasCamera ev s = renderScreen (handle hasCamera ev s)"

inductive reachable :: "bool \<Rightarrow> AppState \<Rightarrow> bool" for hasCamera :: bool where
  reachable_init: "reachable hasCamera (initialState t0)"
| reachable_step: "reachable hasCamera s \<Longrightarrow> enabled s ev \<Longrightarrow> reachable hasCamera (step hasCamera ev s)"


section \<open>Notions of the specification\<close>

definition blank :: "string \<Rightarrow> bool" where
  \<comment> \<open>empty or all white space\<close>
  "blank s = list_all isWhiteSpace s"

definition historyView :: "AppState \<Rightarrow> HistoryEntry list" where
  \<comment> \<open>the memoised \<^verbatim>\<open>filteredHistory\<close> of a state\<close>
  "historyView s = filteredHistory (history s) (historyFilter s) (historySearch s)"

definition claimed_historyView :: "HistoryEntry list \<Rightarrow> HistoryFilter \<Rightarrow> string \<Rightarrow> HistoryEntry list" where
  \<comment> \<open>The history view in the specification's words: the entries whose direction the
      filter admits and for which the query is blank or is, up to case, a substring of
      the recipient or of the note.\<close>
  "claimed_historyView hist flt search =
     filter (\<lambda>e. (flt = FilterAll \<or> flt = FilterOnly (entry_direction e)) \<and>
                 (blank search
                  \<or> sublist (toLowerCase search) (toLowerCase (entry_recipient e))
                  \<or> sublist (toLowerCase search) (toLowerCase (entry_note e)))) hist"

definition quantum :: "rat \<Rightarrow> rat" where
  \<comment> \<open>the distance between neighbouring doubles at a positive value\<close>
  "quantum a = 2 powi (max (ilog2 a) (- 1022) - 52)"

definition is_double :: "rat \<Rightarrow> bool" where
  \<comment> \<open>the rational is the value of a finite double (a characterisation for proofs;
      \<open>fl x = Fin x\<close> is the test that computes)\<close>
  "is_double x = (\<exists>n e. - 1074 \<le> e \<and> \<bar>n\<bar> \<le> 2 ^ 53 \<and> x = of_int n * 2 powi e \<and> \<bar>x\<bar> < 2 powi 1024)"

definition js_nonneg :: "jsnum \<Rightarrow> bool" where
  \<comment> \<open>\<^verbatim>\<open>0 <= x\<close>\<close>
  "js_nonneg x = js_le (Fin 0) x"

text \<open>
  The specification's validation errors.  The code reports each of them by the message
  that \<^verbatim>\<open>handleContinueToConfirm\<close> stores in \<^verbatim>\<open>transferError\<close>.
\<close>

datatype ValidationError = EmptyRecipient | InvalidAmount | InsufficientBalance

fun validationMessage :: "ValidationError \<Rightarrow> string" where
  "validationMessage EmptyRecipient = ''Add a recipient name''"
| "validationMessage InvalidAmount = ''Enter an amount above LKR 0''"
| "validationMessage InsufficientBalance = ''Insufficient balance''"

definition positiveFinite :: "jsnum \<Rightarrow> bool" where
  \<comment> \<open>a positive finite number\<close>
  "positiveFinite v = (case v of Fin a \<Rightarrow> 0 < a | _ \<Rightarrow> False)"

text \<open>
  The specification's scenario: the user logs in, opens the transfer screen and enters
  the draft \<open>Asha\<close>, \<open>2000\<close>, \<open>lunch\<close>; the balance is 125000.
\<close>

definition scenarioState :: AppState where
  "scenarioState =
     step True (SetNote ''lunch'')
       (step True (SetAmount ''2000'')
         (step True (SetRecipient ''Asha'')
           (step True (ClickGoto Transfer)
             (step True ClickLogin (initialState 0)))))"

definition round_half_away :: "rat \<Rightarrow> int" where
  \<comment> \<open>the nearest integer, a tie goes away from zero\<close>
  "round_half_away x = (if 0 \<le> x then \<lfloor>x + 1 / 2\<rfloor> else - \<lfloor>- x + 1 / 2\<rfloor>)"

definition scenarioDetail :: TransferDetail where
  \<comment> \<open>the detail that the scenario's draft yields at time 1000 in the year 2026 with the
      random draw \<open>1/2\<close>\<close>
  "scenarioDetail =
     \<lparr>detail_recipient = ''Asha'', detail_amount = Fin 2000, detail_note = ''lunch'',
      detail_reference = ''TP-2026-55000'', detail_timestamp = 1000\<rparr>"

text \<open>Further states of the scenario, each reached by the events shown.\<close>

definition infinityState :: AppState where
  "infinityState = step True (SetAmount ''Infinity'') scenarioState"

definition confirmState :: AppState where
  "confirmState = step True (ClickContinue 1000 2026 (1 / 2)) scenarioState"

definition offlineState :: AppState where
  "offlineState =
     step False (ClickGoto Offline)
       (step False (ClickGoto Transfer)
         (step False ClickLogin (initialState 0)))"

definition verifiedState :: AppState where
  "verifiedState = step True (RunTask 1 1600 0 None) (step True ClickFingerprint confirmState)"

definition blankRecipientState :: "string \<Rightarrow> AppState" where
  \<comment> \<open>the scenario with a recipient of three spaces and the given amount\<close>
  "blankRecipientState amt = step True (SetAmount amt) (step True (SetRecipient ''   '') scenarioState)"

definition loggedOutInv :: "AppState \<Rightarrow> bool" where
  \<comment> \<open>invariant: a logged-out session shows the login screen and has scheduled nothing
      but the splash timer\<close>
  "loggedOutInv s = (\<not> isLoggedIn s \<longrightarrow> screen s = Login \<and> list_all (\<lambda>t. t = BootTimer) (tasks s))"

definition noCamInv :: "AppState \<Rightarrow> bool" where
  \<comment> \<open>invariant of a runtime without a camera: no request was ever made\<close>
  "noCamInv s =
     ((cameraStatus s = CamIdle \<or> cameraStatus s = CamError)
      \<and> cameraStream s = None \<and> offlineRecordedAt s = None \<and> screen s \<noteq> OfflineSuccess
      \<and> list_all (\<lambda>t. case t of CameraRequest _ \<Rightarrow> False | ScanTimer _ \<Rightarrow> False | _ \<Rightarrow> True) (tasks s))"

definition amountInv :: "Task \<Rightarrow> bool" where
  \<comment> \<open>the amount that a timer closed over is not negative and not NaN\<close>
  "amountInv t = (case t of VerifyTimer d \<Rightarrow> js_nonneg (detail_amount d)
                          | FinalizeTimer d \<Rightarrow> js_nonneg (detail_amount d)
                          | _ \<Rightarrow> True)"

definition balanceInv :: "AppState \<Rightarrow> bool" where
  \<comment> \<open>invariant: the balance is a non-negative double, and no amount that is pending or
      held by a timer is negative or NaN\<close>
  "balanceInv s =
     ((\<exists>b. balance s = Fin b \<and> 0 \<le> b \<and> is_double b)
      \<and> (\<forall>d. pendingTransfer s = Some d \<longrightarrow> js_nonneg (detail_amount d))
      \<and> list_all amountInv (tasks s))"


section \<open>Properties of the string operations\<close>

lemma str_includes_sublist: "str_includes t q = sublist q t"
  by (induction t) (simp_all add: sublist_Cons_right)

lemma trim_empty_iff: "trim s = [] \<longleftrightarrow> blank s"
proof -
  let ?d = "dropWhile isWhiteSpace s"
  have "(\<forall>x\<in>set ?d. isWhiteSpace x) \<longleftrightarrow> (\<forall>x\<in>set s. isWhiteSpace x)"
  proof
    assume a: "\<forall>x\<in>set ?d. isWhiteSpace x"
    have "?d = []"
    proof (rule ccontr)
      assume n: "?d \<noteq> []"
      then have "\<not> isWhiteSpace (hd ?d)" by (rule hd_dropWhile)
      moreover from n have "hd ?d \<in> set ?d" by simp
      ultimately show False using a by blast
    qed
    then show "\<forall>x\<in>set s. isWhiteSpace x" by (simp add: dropWhile_eq_Nil_conv)
  next
    assume "\<forall>x\<in>set s. isWhiteSpace x"
    then show "\<forall>x\<in>set ?d. isWhiteSpace x" by (blast dest: set_dropWhileD)
  qed
  then show ?thesis
    by (simp add: trim_def blank_def dropWhile_eq_Nil_conv list_all_iff)
qed

lemmas string_eval = trim_def isWhiteSpace_def toLowerCase_def toLower_char_def char_of_eq_iff
  sublist_Cons_right blank_def

section \<open>Properties of rounding to a double\<close>

lemma ilog2_bounds:
  assumes "0 < a"
  shows "2 powi (ilog2 a) \<le> a" and "a < 2 powi (ilog2 a + 1)"
proof -
  obtain p q where pq: "quotient_of a = (p, q)" by (cases "quotient_of a")
  have q0: "0 < q" using quotient_of_denom_pos[OF pq] .
  have a: "a = of_int p / of_int q" using quotient_of_div[OF pq] .
  have p0: "0 < p" using assms q0 unfolding a by (simp add: zero_less_divide_iff)
  define kp where "kp = floorlog 2 (nat p)"
  define kq where "kq = floorlog 2 (nat q)"
  have bp: "2 ^ (kp - 1) \<le> nat p \<and> nat p < 2 ^ kp"
    unfolding kp_def using floorlog_bounds[of "nat p" 2] p0 by simp
  have bq: "2 ^ (kq - 1) \<le> nat q \<and> nat q < 2 ^ kq"
    unfolding kq_def using floorlog_bounds[of "nat q" 2] q0 by simp
  have kp1: "1 \<le> kp" unfolding kp_def using p0 by (simp add: floorlog_def)
  have kq1: "1 \<le> kq" unfolding kq_def using q0 by (simp add: floorlog_def)
  have rp: "(2::rat) ^ (kp - 1) \<le> of_int p" "(of_int p :: rat) < 2 ^ kp"
  proof -
    have "of_nat (2 ^ (kp - 1)) \<le> (of_nat (nat p) :: rat)" using bp by (simp only: of_nat_le_iff)
    then show "(2::rat) ^ (kp - 1) \<le> of_int p" using p0 by simp
    have "(of_nat (nat p) :: rat) < of_nat (2 ^ kp)" using bp by (simp only: of_nat_less_iff)
    then show "(of_int p :: rat) < 2 ^ kp" using p0 by simp
  qed
  have rq: "(2::rat) ^ (kq - 1) \<le> of_int q" "(of_int q :: rat) < 2 ^ kq"
  proof -
    have "of_nat (2 ^ (kq - 1)) \<le> (of_nat (nat q) :: rat)" using bq by (simp only: of_nat_le_iff)
    then show "(2::rat) ^ (kq - 1) \<le> of_int q" using q0 by simp
    have "(of_nat (nat q) :: rat) < of_nat (2 ^ kq)" using bq by (simp only: of_nat_less_iff)
    then show "(of_int q :: rat) < 2 ^ kq" using q0 by simp
  qed
  define d where "d = int kp - int kq"
  have up: "a < 2 powi (d + 1)"
  proof -
    have "d + 1 = int kp - int (kq - 1)" using kq1 by (simp add: d_def)
    then have "(2::rat) powi (d + 1) = 2 ^ kp / 2 ^ (kq - 1)"
      by (simp add: power_int_diff)
    moreover have "of_int p / of_int q < (2::rat) ^ kp / 2 ^ (kq - 1)"
      by (rule frac_less) (use rp rq p0 in auto)
    ultimately show ?thesis by (simp add: a)
  qed
  have lo: "2 powi (d - 1) < a"
  proof -
    have "d - 1 = int (kp - 1) - int kq" using kp1 by (simp add: d_def)
    then have "(2::rat) powi (d - 1) = 2 ^ (kp - 1) / 2 ^ kq"
      by (simp add: power_int_diff)
    moreover have "(2::rat) ^ (kp - 1) / 2 ^ kq < of_int p / of_int q"
      by (rule frac_less2) (use rp rq q0 in auto)
    ultimately show ?thesis by (simp add: a)
  qed
  have il: "ilog2 a = (if 2 powi d \<le> a then d else d - 1)"
    by (simp add: ilog2_def pq Let_def d_def kp_def kq_def)
  show "2 powi (ilog2 a) \<le> a" using lo by (simp add: il)
  show "a < 2 powi (ilog2 a + 1)" using up by (auto simp add: il)
qed

lemma ilog2_unique:
  assumes "2 powi k \<le> a" and "a < 2 powi (k + 1)"
  shows "ilog2 a = k"
proof -
  have a0: "0 < a" using assms(1) by (rule less_le_trans[rotated]) simp
  note b = ilog2_bounds[OF a0]
  have "\<not> ilog2 a < k"
  proof
    assume "ilog2 a < k"
    then have "(2::rat) powi (ilog2 a + 1) \<le> 2 powi k" by (intro power_int_increasing) auto
    then show False using b(2) assms(1) by linarith
  qed
  moreover have "\<not> k < ilog2 a"
  proof
    assume "k < ilog2 a"
    then have "(2::rat) powi (k + 1) \<le> 2 powi (ilog2 a)" by (intro power_int_increasing) auto
    then show False using b(1) assms(2) by linarith
  qed
  ultimately show ?thesis by linarith
qed

lemma ilog2_mono:
  assumes "0 < a" and "a \<le> b"
  shows "ilog2 a \<le> ilog2 b"
proof (rule ccontr)
  assume "\<not> ilog2 a \<le> ilog2 b"
  then have "(2::rat) powi (ilog2 b + 1) \<le> 2 powi (ilog2 a)" by (intro power_int_increasing) auto
  moreover have "0 < b" using assms by linarith
  ultimately show False using ilog2_bounds[OF assms(1)] ilog2_bounds[OF \<open>0 < b\<close>] assms(2) by linarith
qed

lemma round_half_even_of_int [simp]: "round_half_even (of_int k) = k"
  by (simp add: round_half_even_def)

lemma round_half_even_le:
  assumes "y \<le> of_int k" shows "round_half_even y \<le> k"
proof -
  have f: "\<lfloor>y\<rfloor> \<le> k" using assms by (simp add: floor_le_iff)
  show ?thesis
  proof (cases "\<lfloor>y\<rfloor> = k")
    case True
    then have "y = of_int k" using assms by (metis of_int_floor_le order_antisym)
    then show ?thesis by simp
  next
    case False
    with f have "\<lfloor>y\<rfloor> + 1 \<le> k" by linarith
    then show ?thesis by (simp add: round_half_even_def Let_def)
  qed
qed

lemma round_half_even_ge:
  assumes "of_int k \<le> y" shows "k \<le> round_half_even y"
proof -
  have "k \<le> \<lfloor>y\<rfloor>" using assms by (simp add: le_floor_iff)
  then show ?thesis by (simp add: round_half_even_def Let_def)
qed

lemma round_half_even_less_half:
  assumes "y < of_int k + 1 / 2" shows "round_half_even y \<le> k"
proof -
  have f: "\<lfloor>y\<rfloor> \<le> k" using assms by (simp add: floor_le_iff)
  show ?thesis
  proof (cases "\<lfloor>y\<rfloor> = k")
    case True
    then have "y - of_int \<lfloor>y\<rfloor> < 1 / 2" using assms by simp
    then show ?thesis using True by (simp add: round_half_even_def Let_def)
  next
    case False
    with f have "\<lfloor>y\<rfloor> + 1 \<le> k" by linarith
    then show ?thesis by (simp add: round_half_even_def Let_def)
  qed
qed


lemma quantum_pos [simp]: "0 < quantum a"
  by (simp add: quantum_def)

lemma quantum_nonneg [simp]: "0 \<le> quantum a"
  by (simp add: quantum_def)

lemma fl_pos:
  "0 < x \<Longrightarrow> fl x = (let m = of_int (round_half_even (x / quantum x)) * quantum x
                      in if 2 powi 1024 \<le> m then PosInf else Fin m)"
  by (simp add: fl_def quantum_def Let_def)

lemma fl_neg: "x < 0 \<Longrightarrow> fl x = js_neg (fl (- x))"
  by (simp add: fl_def Let_def)

lemma fl_0 [simp]: "fl 0 = Fin 0"
  by (simp add: fl_def)

lemma powi_nonneg_int: "0 \<le> j \<Longrightarrow> (2::rat) powi j = of_int (2 ^ nat j)"
  by (simp add: power_int_def)

lemma double_on_grid:
  assumes d: "is_double b" and b0: "0 < b"
  shows "\<exists>k. b = of_int k * quantum b"
proof -
  from d obtain n e where e: "- 1074 \<le> e" and n: "\<bar>n\<bar> \<le> 2 ^ 53" and b: "b = of_int n * 2 powi e"
    unfolding is_double_def by blast
  define E where "E = max (ilog2 b) (- 1022)"
  have q: "quantum b = 2 powi (E - 52)" by (simp add: quantum_def E_def)
  show ?thesis
  proof (cases "E - 52 \<le> e")
    case True
    have "(2::rat) powi e = 2 powi (e - (E - 52)) * 2 powi (E - 52)"
      using power_int_add[of "2::rat" "e - (E - 52)" "E - 52"] by simp
    also have "\<dots> = of_int (2 ^ nat (e - (E - 52))) * 2 powi (E - 52)"
      using True by (simp add: powi_nonneg_int)
    finally have "(of_int n :: rat) * 2 powi e = of_int (n * 2 ^ nat (e - (E - 52))) * 2 powi (E - 52)"
      by simp
    then have "b = of_int (n * 2 ^ nat (e - (E - 52))) * quantum b"
      using b q by simp
    then show ?thesis by blast
  next
    case False
    then have E: "E = ilog2 b" "e + 53 \<le> E" using e by (auto simp: E_def)
    have n0: "0 < n"
    proof -
      have "0 < (of_int n :: rat) * 2 powi e" using b0 b by simp
      moreover have "0 < (2::rat) powi e" by simp
      ultimately have "0 < (of_int n :: rat)" by (rule zero_less_mult_pos2)
      then show ?thesis by simp
    qed
    have "of_int n \<le> (2::rat) ^ 53"
    proof -
      have "(of_int n :: rat) \<le> of_int (2 ^ 53)" using n n0 by (simp only: of_int_le_iff)
      then show ?thesis by simp
    qed
    then have "b \<le> 2 ^ 53 * 2 powi e" unfolding b by (intro mult_right_mono) auto
    also have "\<dots> = 2 powi (e + 53)" using power_int_add[of "2::rat" e 53] by simp
    also have "\<dots> \<le> 2 powi E" using E(2) by (intro power_int_increasing) auto
    finally have "b \<le> 2 powi E" .
    moreover have "2 powi E \<le> b" using ilog2_bounds(1)[OF b0] E(1) by simp
    ultimately have "b = 2 powi E" by simp
    also have "\<dots> = 2 powi 52 * 2 powi (E - 52)"
      using power_int_add[of "2::rat" 52 "E - 52"] by simp
    finally have "b = of_int (2 ^ 52) * quantum b" unfolding q by simp
    then show ?thesis by blast
  qed
qed

lemma fl_on_grid:
  assumes "0 < b" and "b = of_int k * quantum b" and "b < 2 powi 1024"
  shows "fl b = Fin b"
proof -
  have "b / quantum b = of_int k"
    using assms(2) quantum_pos[of b] by (metis less_irrefl nonzero_mult_div_cancel_right)
  then show ?thesis using assms by (simp add: fl_pos[OF assms(1)] Let_def)
qed

lemma is_double_uminus: "is_double (- x) = is_double x"
proof -
  have "is_double (- y)" if "is_double y" for y
  proof -
    from that obtain n e where "- 1074 \<le> e" "\<bar>n\<bar> \<le> 2 ^ 53" "y = of_int n * 2 powi e" "\<bar>y\<bar> < 2 powi 1024"
      unfolding is_double_def by blast
    then have "- 1074 \<le> e \<and> \<bar>- n\<bar> \<le> 2 ^ 53 \<and> - y = of_int (- n) * 2 powi e \<and> \<bar>- y\<bar> < 2 powi 1024"
      by simp
    then show ?thesis unfolding is_double_def by blast
  qed
  from this[of x] this[of "- x"] show ?thesis by auto
qed

lemma is_double_0 [simp]: "is_double 0"
  unfolding is_double_def by (intro exI[of _ 0]) simp

lemma fl_double: 
  assumes "is_double x" shows "fl x = Fin x"
proof -
  have pos: "fl y = Fin y" if "is_double y" "0 < y" for y
  proof -
    from double_on_grid[OF that] obtain k where "y = of_int k * quantum y" ..
    moreover have "y < 2 powi 1024" using that unfolding is_double_def by auto
    ultimately show ?thesis using fl_on_grid that(2) by blast
  qed
  consider "0 < x" | "x = 0" | "x < 0" by linarith
  then show ?thesis
  proof cases
    case 1 then show ?thesis using pos assms by blast
  next
    case 2 then show ?thesis by simp
  next
    case 3
    then have "fl (- x) = Fin (- x)" using pos[of "- x"] assms by (simp add: is_double_uminus)
    then show ?thesis using 3 by (simp add: fl_neg)
  qed
qed

lemma is_double_of_int: "\<bar>n\<bar> \<le> 2 ^ 53 \<Longrightarrow> is_double (of_int n)"
proof -
  assume n: "\<bar>n\<bar> \<le> 2 ^ 53"
  have "\<bar>n\<bar> < 2 ^ 1024" using n by (rule le_less_trans) simp
  then have "(of_int \<bar>n\<bar> :: rat) < of_int (2 ^ 1024)" by (simp only: of_int_less_iff)
  then have "\<bar>of_int n :: rat\<bar> < 2 powi 1024" by simp
  with n show ?thesis unfolding is_double_def by (intro exI[of _ n] exI[of _ 0]) simp
qed

lemma fl_pos_cases:
  assumes "0 < x"
  obtains (inf) "fl x = PosInf"
        | (fin) n where "fl x = Fin (of_int n * quantum x)" "0 \<le> n" "n \<le> 2 ^ 53"
                        "of_int n * quantum x < 2 powi 1024" "n = round_half_even (x / quantum x)"
proof -
  define E where "E = max (ilog2 x) (- 1022)"
  define n where "n = round_half_even (x / quantum x)"
  have q: "quantum x = 2 powi (E - 52)" by (simp add: quantum_def E_def)
  have "x < 2 powi (ilog2 x + 1)" using ilog2_bounds(2)[OF assms] .
  also have "\<dots> \<le> 2 powi (E + 1)" by (intro power_int_increasing) (auto simp: E_def)
  also have "\<dots> = 2 ^ 53 * quantum x" unfolding q
    using power_int_add[of "2::rat" 53 "E - 52"] by (simp add: add.commute)
  finally have "x / quantum x < 2 ^ 53" by (simp add: pos_divide_less_eq)
  then have "x / quantum x \<le> of_int (2 ^ 53)" by simp
  then have n1: "n \<le> 2 ^ 53" unfolding n_def by (rule round_half_even_le)
  have "of_int 0 \<le> x / quantum x" using assms by simp
  then have n0: "0 \<le> n" unfolding n_def by (rule round_half_even_ge)
  show ?thesis
  proof (cases "2 powi 1024 \<le> of_int n * quantum x")
    case True
    then have "fl x = PosInf" by (simp add: fl_pos[OF assms] Let_def n_def)
    then show ?thesis by (rule inf)
  next
    case False
    then have "fl x = Fin (of_int n * quantum x)" by (simp add: fl_pos[OF assms] Let_def n_def)
    then show ?thesis using n0 n1 False by (intro fin[of n]) (auto simp: n_def)
  qed
qed

lemma fl_range:
  assumes "fl x = Fin m" shows "is_double m"
proof -
  have pos: "is_double m'" if "fl y = Fin m'" "0 < y" for y m'
  using that(2)
  proof (cases rule: fl_pos_cases)
    case inf then show ?thesis using that by simp
  next
    case (fin n)
    have "- 1074 \<le> max (ilog2 y) (- 1022) - 52" by simp
    moreover have "\<bar>n\<bar> \<le> 2 ^ 53" using fin by simp
    moreover have "m' = of_int n * 2 powi (max (ilog2 y) (- 1022) - 52)"
      using fin(1) that(1) by (simp add: quantum_def)
    moreover have "\<bar>m'\<bar> < 2 powi 1024" using fin that(1) by (simp add: abs_mult)
    ultimately show ?thesis unfolding is_double_def by blast
  qed
  consider "0 < x" | "x = 0" | "x < 0" by linarith
  then show ?thesis
  proof cases
    case 1 then show ?thesis using pos assms by blast
  next
    case 2 then show ?thesis using assms by simp
  next
    case 3
    then have "js_neg (fl (- x)) = Fin m" using assms by (simp add: fl_neg)
    then have "fl (- x) = Fin (- m)" by (cases "fl (- x)") auto
    then have "is_double (- m)" using pos[of "- x" "- m"] 3 by simp
    then show ?thesis by (simp add: is_double_uminus)
  qed
qed

lemma fl_nonneg: "0 \<le> x \<Longrightarrow> js_nonneg (fl x)"
proof -
  assume "0 \<le> x"
  then consider "x = 0" | "0 < x" by linarith
  then show ?thesis
  proof cases
    case 1 then show ?thesis by (simp add: js_nonneg_def js_le_def)
  next
    case 2 then show ?thesis
      by (cases rule: fl_pos_cases) (auto simp: js_nonneg_def js_le_def not_less)
  qed
qed

lemma fl_mono_up:
  assumes d: "is_double b" and x0: "0 < x" and xb: "x \<le> b"
  obtains m where "fl x = Fin m" "0 \<le> m" "m \<le> b"
proof -
  have b0: "0 < b" using x0 xb by linarith
  from double_on_grid[OF d b0] obtain k where k: "b = of_int k * quantum b" ..
  define Ex where "Ex = max (ilog2 x) (- 1022)"
  define Eb where "Eb = max (ilog2 b) (- 1022)"
  have le: "Ex \<le> Eb" using ilog2_mono[OF x0 xb] by (simp add: Ex_def Eb_def)
  have "quantum b = 2 powi (Eb - Ex) * quantum x"
    using power_int_add[of "2::rat" "Eb - Ex" "Ex - 52"]
    by (simp add: quantum_def Ex_def[symmetric] Eb_def[symmetric])
  also have "\<dots> = of_int (2 ^ nat (Eb - Ex)) * quantum x" using le by (simp add: powi_nonneg_int)
  finally have K: "b = of_int (k * 2 ^ nat (Eb - Ex)) * quantum x" using k by simp
  define K where "K = k * 2 ^ nat (Eb - Ex)"
  have bK: "b = of_int K * quantum x" using K by (simp add: K_def)
  have "x / quantum x \<le> of_int K" using xb bK by (simp add: pos_divide_le_eq)
  then have r: "round_half_even (x / quantum x) \<le> K" by (rule round_half_even_le)
  have b1: "b < 2 powi 1024" using d b0 unfolding is_double_def by auto
  from x0 show ?thesis
  proof (cases rule: fl_pos_cases)
    case inf
    have "of_int (round_half_even (x / quantum x)) * quantum x \<le> of_int K * quantum x"
      using r by (intro mult_right_mono) auto
    then have "\<not> 2 powi 1024 \<le> of_int (round_half_even (x / quantum x)) * quantum x"
      using b1 bK by linarith
    then show ?thesis using inf by (simp add: fl_pos[OF x0] Let_def)
  next
    case (fin n)
    have "of_int n * quantum x \<le> of_int K * quantum x"
      using r fin(5) by (intro mult_right_mono) auto
    then have "of_int n * quantum x \<le> b" using bK by simp
    moreover have "0 \<le> of_int n * quantum x" using fin(2) by simp
    ultimately show ?thesis using fin(1) that by blast
  qed
qed

lemma fl_mono_down:
  assumes d: "is_double b" and b0: "0 < b" and bx: "b \<le> x"
  shows "fl x = PosInf \<or> (\<exists>m. fl x = Fin m \<and> b \<le> m)"
proof -
  have x0: "0 < x" using b0 bx by linarith
  from double_on_grid[OF d b0] obtain k where k: "b = of_int k * quantum b" ..
  define Ex where "Ex = max (ilog2 x) (- 1022)"
  define Eb where "Eb = max (ilog2 b) (- 1022)"
  have le: "Eb \<le> Ex" using ilog2_mono[OF b0 bx] by (simp add: Ex_def Eb_def)
  from x0 show ?thesis
  proof (cases rule: fl_pos_cases)
    case inf then show ?thesis by simp
  next
    case (fin n)
    have "b \<le> of_int n * quantum x"
    proof (cases "Eb = Ex")
      case True
      then have q: "quantum b = quantum x" by (simp add: quantum_def Ex_def Eb_def)
      have "of_int k \<le> x / quantum x" using bx k q by (simp add: pos_le_divide_eq)
      then have "k \<le> n" unfolding fin(5) by (rule round_half_even_ge)
      then have "of_int k * quantum x \<le> of_int n * quantum x" by (intro mult_right_mono) auto
      then show ?thesis using k q by simp
    next
      case False
      with le have lt: "Eb + 1 \<le> Ex" by simp
      then have Ex: "Ex = ilog2 x" by (auto simp: Ex_def Eb_def)
      have "2 powi Ex \<le> x" using ilog2_bounds(1)[OF x0] Ex by simp
      moreover have "2 powi Ex = of_int (2 ^ 52) * quantum x"
        using power_int_add[of "2::rat" 52 "Ex - 52"]
        by (simp add: quantum_def Ex_def[symmetric])
      ultimately have "of_int (2 ^ 52) \<le> x / quantum x" by (simp add: pos_le_divide_eq)
      then have "2 ^ 52 \<le> n" unfolding fin(5) by (rule round_half_even_ge)
      then have "of_int (2 ^ 52) * quantum x \<le> of_int n * quantum x"
        by (intro mult_right_mono) (auto simp only: of_int_le_iff quantum_pos less_imp_le)
      then have "2 powi Ex \<le> of_int n * quantum x"
        using \<open>2 powi Ex = of_int (2 ^ 52) * quantum x\<close> by simp
      moreover have "b < 2 powi (ilog2 b + 1)" using ilog2_bounds(2)[OF b0] .
      moreover have "(2::rat) powi (ilog2 b + 1) \<le> 2 powi (Eb + 1)"
        by (intro power_int_increasing) (auto simp: Eb_def)
      moreover have "(2::rat) powi (Eb + 1) \<le> 2 powi Ex" using lt by (intro power_int_increasing) auto
      ultimately show ?thesis by linarith
    qed
    then show ?thesis using fin(1) by simp
  qed
qed

lemma js_nonneg_cases:
  "js_nonneg x \<longleftrightarrow> x = PosInf \<or> (\<exists>a. x = Fin a \<and> 0 \<le> a)"
  by (cases x) (auto simp: js_nonneg_def js_le_def)

lemma amount_nonneg:
  assumes "js_greater v (Fin 0)"
  shows "js_nonneg (js_div (Math_round (js_mul v (Fin 100))) (Fin 100))"
proof (cases v)
  case (Fin a)
  then have a: "0 < a" using assms by (simp add: js_greater_def)
  have "js_nonneg (fl (a * 100))" using a by (intro fl_nonneg) simp
  then consider "fl (a * 100) = PosInf" | m where "fl (a * 100) = Fin m" "0 \<le> m"
    by (auto simp: js_nonneg_cases)
  then show ?thesis
  proof cases
    case 1 then show ?thesis using Fin by (simp add: js_nonneg_def js_le_def)
  next
    case 2
    have "0 \<le> \<lfloor>m + 1 / 2\<rfloor>" using 2(2) by simp
    then have "js_nonneg (fl (of_int \<lfloor>m + 1 / 2\<rfloor> / 100))" by (intro fl_nonneg) simp
    then show ?thesis using Fin 2 by simp
  qed
qed (use assms in \<open>simp_all add: js_greater_def js_nonneg_def js_le_def\<close>)

lemma commit_balance:
  assumes b: "0 \<le> b" "is_double b" and a: "js_nonneg amt"
  shows "\<exists>b'. Math_max (Fin 0) (js_sub (Fin b) amt) = Fin b' \<and> 0 \<le> b' \<and> b' \<le> b \<and> is_double b'"
proof -
  from a consider "amt = PosInf" | a' where "amt = Fin a'" "0 \<le> a'" by (auto simp: js_nonneg_cases)
  then show ?thesis
  proof cases
    case 1
    then have "Math_max (Fin 0) (js_sub (Fin b) amt) = Fin 0" by (simp add: js_sub_def Math_max_def)
    then show ?thesis using b by simp
  next
    case 2
    have s: "js_sub (Fin b) amt = fl (b - a')" using 2 by (simp add: js_sub_def)
    consider "b - a' = 0" | "b - a' < 0" | "0 < b - a'" by linarith
    then show ?thesis
    proof cases
      case 1
      then have "fl (b - a') = Fin 0" by simp
      then have "Math_max (Fin 0) (js_sub (Fin b) amt) = Fin 0" unfolding s by (simp add: Math_max_def)
      then show ?thesis using b by simp
    next
      case 2
      have "js_nonneg (fl (- (b - a')))" using 2 by (intro fl_nonneg) simp
      then have "Math_max (Fin 0) (js_neg (fl (- (b - a')))) = Fin 0"
        by (auto simp: js_nonneg_cases Math_max_def)
      then have "Math_max (Fin 0) (js_sub (Fin b) amt) = Fin 0" using 2 by (simp add: s fl_neg)
      then show ?thesis using b by simp
    next
      case 3
      have "b - a' \<le> b" using \<open>0 \<le> a'\<close> by simp
      from fl_mono_up[OF b(2) 3 this] obtain m where m: "fl (b - a') = Fin m" "0 \<le> m" "m \<le> b" .
      have "is_double m" using m(1) by (rule fl_range)
      moreover have "Math_max (Fin 0) (js_sub (Fin b) amt) = Fin m"
        using m by (simp add: s Math_max_def)
      ultimately show ?thesis using m by simp
    qed
  qed
qed

lemma double_below_one:
  assumes d: "is_double r" and r1: "r < 1"
  shows "r \<le> 1 - 1 / 2 ^ 53"
proof -
  from d obtain n e where e: "- 1074 \<le> e" and n: "\<bar>n\<bar> \<le> 2 ^ 53" and r: "r = of_int n * 2 powi e"
    unfolding is_double_def by blast
  show ?thesis
  proof (cases "- 53 \<le> e")
    case True
    have "(2::rat) powi e = 2 powi (e + 53) * 2 powi (- 53)"
      using power_int_add[of "2::rat" "e + 53" "- 53"] by simp
    also have "\<dots> = of_int (2 ^ nat (e + 53)) / 2 ^ 53"
      using True by (simp add: powi_nonneg_int power_int_minus_divide)
    finally have rk: "r = of_int (n * 2 ^ nat (e + 53)) / 2 ^ 53" by (simp add: r)
    define K where "K = n * 2 ^ nat (e + 53)"
    have "of_int K < (2::rat) ^ 53" using r1 rk by (simp add: K_def pos_divide_less_eq)
    then have "of_int K < (of_int (2 ^ 53) :: rat)" by simp
    then have "K < 2 ^ 53" by (simp only: of_int_less_iff)
    then have "K \<le> 2 ^ 53 - 1" by simp
    then have "(of_int K :: rat) \<le> of_int (2 ^ 53 - 1)" by (simp only: of_int_le_iff)
    then have "of_int K / 2 ^ 53 \<le> (of_int (2 ^ 53 - 1) :: rat) / 2 ^ 53"
      by (intro divide_right_mono) auto
    then show ?thesis using rk by (simp add: K_def)
  next
    case False
    then have "e \<le> - 54" by simp
    have "n \<le> 2 ^ 53" using n by linarith
    then have "of_int n \<le> (of_int (2 ^ 53) :: rat)" by (simp only: of_int_le_iff)
    then have "r \<le> 2 ^ 53 * 2 powi e" unfolding r by (intro mult_right_mono) auto
    also have "(2::rat) powi e \<le> 2 powi (- 54)" using \<open>e \<le> - 54\<close> by (intro power_int_increasing) auto
    then have "(2::rat) ^ 53 * 2 powi e \<le> 2 ^ 53 * 2 powi (- 54)" by (intro mult_left_mono) auto
    finally show ?thesis by (simp add: power_int_minus_divide)
  qed
qed


lemma is_double_dyadic:
  assumes "\<bar>n\<bar> \<le> 2 ^ 53" and "- 1074 \<le> e" and "e \<le> 0"
  shows "is_double (of_int n * 2 powi e)"
proof -
  have "(2::rat) powi e \<le> 2 powi 0" using assms(3) by (intro power_int_increasing) auto
  then have le1: "(2::rat) powi e \<le> 1" by simp
  have "\<bar>of_int n * 2 powi e :: rat\<bar> = of_int \<bar>n\<bar> * 2 powi e" by (simp add: abs_mult)
  also have "\<dots> \<le> of_int \<bar>n\<bar> * 1" using le1 by (intro mult_left_mono) auto
  also have "\<dots> \<le> of_int (2 ^ 53)" using assms(1) by (simp only: mult_1_right of_int_le_iff)
  also have "\<dots> < (2::rat) powi 1024" by simp
  finally have "\<bar>of_int n * 2 powi e :: rat\<bar> < 2 powi 1024" .
  then show ?thesis unfolding is_double_def using assms by blast
qed

lemma random_scaled:
  assumes d: "fl r = Fin r" and r0: "0 \<le> r" and r1: "r < 1"
  shows "\<exists>m. js_mul (Fin r) (Fin 90000) = Fin m \<and> 0 \<le> m \<and> m \<le> 90000 - 1 / 2 ^ 36"
proof -
  have dr: "is_double r" using d by (rule fl_range)
  have ub: "r \<le> 1 - 1 / 2 ^ 53" using dr r1 by (rule double_below_one)
  define x where "x = r * 90000"
  define b1 :: rat where "b1 = 90000 - 1 / 2 ^ 36"
  have b1: "b1 = of_int (90000 * 2 ^ 36 - 1) * 2 powi (- 36)"
    by (simp add: b1_def power_int_minus_divide field_simps)
  have db1: "is_double b1" unfolding b1 by (rule is_double_dyadic) simp_all
  have xu: "x \<le> 90000 - 90000 / 2 ^ 53" using ub by (simp add: x_def field_simps)
  have "0 \<le> x" using r0 by (simp add: x_def)
  then have "x = 0 \<or> (0 < x \<and> x \<le> b1) \<or> b1 < x" by linarith
  then consider "x = 0" | "0 < x" "x \<le> b1" | "b1 < x" by blast
  then have "\<exists>m. fl x = Fin m \<and> 0 \<le> m \<and> m \<le> b1"
  proof cases
    case 1 then show ?thesis by (simp add: b1_def)
  next
    case 2
    from fl_mono_up[OF db1 2] show ?thesis by blast
  next
    case 3
    then have x0: "0 < x" by (simp add: b1_def)
    have "2 powi 16 \<le> x" using 3 by (simp add: b1_def)
    moreover have "x < 2 powi (16 + 1)" using xu by simp
    ultimately have il: "ilog2 x = 16" by (rule ilog2_unique)
    have q: "quantum x = 1 / 2 ^ 36" by (simp add: quantum_def il power_int_minus_divide)
    have "x / quantum x = x * 2 ^ 36" by (simp add: q)
    also have "\<dots> \<le> (90000 - 90000 / 2 ^ 53) * 2 ^ 36" using xu by (intro mult_right_mono) auto
    also have "\<dots> < of_int (90000 * 2 ^ 36 - 1) + 1 / 2" by simp
    finally have "round_half_even (x / quantum x) \<le> 90000 * 2 ^ 36 - 1"
      by (rule round_half_even_less_half)
    then have le: "of_int (round_half_even (x / quantum x)) * quantum x \<le> of_int (90000 * 2 ^ 36 - 1) * quantum x"
      by (intro mult_right_mono) (simp_all only: of_int_le_iff quantum_nonneg)
    have bq: "of_int (90000 * 2 ^ 36 - 1) * quantum x = b1" by (simp add: q b1_def field_simps)
    from x0 show ?thesis
    proof (cases rule: fl_pos_cases)
      case inf
      have "b1 < 2 powi 1024" by (simp add: b1_def)
      then have "\<not> 2 powi 1024 \<le> of_int (round_half_even (x / quantum x)) * quantum x"
        using le bq by linarith
      then show ?thesis using inf by (simp add: fl_pos[OF x0] Let_def)
    next
      case (fin n)
      then show ?thesis using le bq by (auto simp: zero_le_mult_iff)
    qed
  qed
  then show ?thesis by (simp add: x_def b1_def)
qed

lemma reference_number:
  assumes d: "fl r = Fin r" and r0: "0 \<le> r" and r1: "r < 1"
  shows "\<exists>n. Math_floor (js_add (Fin 10000) (js_mul (Fin r) (Fin 90000))) = Fin (of_int n)
             \<and> 10000 \<le> n \<and> n \<le> 99999"
proof -
  from random_scaled[OF assms] obtain m where
    m: "js_mul (Fin r) (Fin 90000) = Fin m" "0 \<le> m" "m \<le> 90000 - 1 / 2 ^ 36" by blast
  define x where "x = 10000 + m"
  define b2 :: rat where "b2 = 100000 - 1 / 2 ^ 36"
  have b2: "b2 = of_int (100000 * 2 ^ 36 - 1) * 2 powi (- 36)"
    by (simp add: b2_def power_int_minus_divide field_simps)
  have db2: "is_double b2" unfolding b2 by (rule is_double_dyadic) simp_all
  have x0: "0 < x" and xb: "x \<le> b2" and xl: "10000 \<le> x" using m by (simp_all add: x_def b2_def)
  from fl_mono_up[OF db2 x0 xb] obtain y where y: "fl x = Fin y" "0 \<le> y" "y \<le> b2" .
  have "is_double 10000" using is_double_of_int[of 10000] by simp
  from fl_mono_down[OF this _ xl] y(1) have yl: "10000 \<le> y" by simp
  have "y < 100000" using y(3) by (simp add: b2_def)
  then have "\<lfloor>y\<rfloor> \<le> 99999" by (simp add: floor_le_iff)
  moreover have "10000 \<le> \<lfloor>y\<rfloor>" using yl by (simp add: le_floor_iff)
  moreover have "Math_floor (js_add (Fin 10000) (js_mul (Fin r) (Fin 90000))) = Fin (of_int \<lfloor>y\<rfloor>)"
    using m(1) y(1) by (simp add: x_def)
  ultimately show ?thesis by blast
qed

section \<open>Evaluation on concrete inputs\<close>

lemma fl_numeral [simp]: "numeral k \<le> (2::int) ^ 53 \<Longrightarrow> fl (numeral k) = Fin (numeral k)"
  using fl_double[OF is_double_of_int[of "numeral k"]] by simp

lemmas number_eval = js_Number_def parseUnsignedDecimal_def parseExponent_def parseRadix_def
  isDigit_def digitsValue_def hexDigitValue_def removeCommas_def amountValue_def

lemma scenarioState_eq:
  "scenarioState =
     (initialState 0)\<lparr>userName := ''Chinthana'', screen := Transfer,
        draft := \<lparr>draft_recipient = ''Asha'', draft_amount = ''2000'', draft_note = ''lunch''\<rparr>\<rparr>"
  by (simp add: scenarioState_def step_def renderScreen_def isLoggedIn_def handle_def handleLogin_def
      initialState_def defaultDraft_def string_eval)


lemmas scenario_eval = scenarioState_eq initialState_def defaultDraft_def seededHistory_def

lemma toString_nat_digit: "n < 10 \<Longrightarrow> toString_nat n = [char_of (48 + n)]"
  by (simp add: toString_nat.simps[of n])

lemma toString_nat_more: "10 \<le> n \<Longrightarrow> toString_nat n = toString_nat (n div 10) @ [char_of (48 + n mod 10)]"
  by (simp add: toString_nat.simps[of n])

lemmas toString_eval = toString_nat_digit toString_nat_more toString_int_def

lemma toString_nat_five:
  assumes "10000 \<le> n" and "n \<le> 99999"
  shows "length (toString_nat n) = 5 \<and> list_all isDigit (toString_nat n)"
proof -
  have dg: "isDigit (char_of (48 + k mod 10))" for k :: nat
  proof -
    have "(48 + k mod 10) mod 256 = 48 + k mod 10" by (simp add: mod_less)
    then show ?thesis by (simp add: isDigit_def Let_def)
  qed
  have d1: "isDigit (char_of (48 + k))" if "k < 10" for k :: nat
    using dg[of k] that by simp
  define a where "a = n div 10"
  define b where "b = a div 10"
  define c where "c = b div 10"
  define e where "e = c div 10"
  have r: "10 \<le> n" "10 \<le> a" "10 \<le> b" "10 \<le> c" "e < 10"
    using assms by (simp_all add: a_def b_def c_def e_def)
  have "toString_nat n =
      [char_of (48 + e), char_of (48 + c mod 10), char_of (48 + b mod 10),
       char_of (48 + a mod 10), char_of (48 + n mod 10)]"
    using r
    by (simp add: toString_nat_more[of n] toString_nat_more[of a] toString_nat_more[of b]
        toString_nat_more[of c] toString_nat_digit[of e]
        a_def[symmetric] b_def[symmetric] c_def[symmetric] e_def[symmetric])
  then show ?thesis using dg d1[OF r(5)] by simp
qed

lemmas step_eval = step_def renderScreen_def isLoggedIn_def handle_def

lemma floor_rat_numeral: "\<lfloor>numeral a / numeral b :: rat\<rfloor> = numeral a div numeral b"
  using floor_divide_of_int_eq[of "numeral a" "numeral b", where 'a = rat] by simp

lemmas arith_eval = floor_rat_numeral

lemma infinityState_eq:
  "infinityState = scenarioState\<lparr>draft := \<lparr>draft_recipient = ''Asha'', draft_amount = ''Infinity'', draft_note = ''lunch''\<rparr>\<rparr>"
  by (simp add: infinityState_def step_eval scenario_eval)

lemma reference_2026: "generateReferenceId 2026 (1 / 2) = ''TP-2026-55000''"
  by (simp add: generateReferenceId_def toString_eval char_of_eq_iff)

lemma confirmState_eq:
  "confirmState = scenarioState\<lparr>pendingTransfer := Some scenarioDetail, screen := Confirm\<rparr>"
  by (simp add: confirmState_def step_eval scenario_eval handleContinueToConfirm_def Let_def
      number_eval string_eval js_truthy_def js_le_def js_greater_def reference_2026 scenarioDetail_def
      arith_eval)

lemma offlineState_eq:
  "offlineState = (initialState 0)\<lparr>userName := ''Chinthana'', screen := Offline\<rparr>"
  by (simp add: offlineState_def step_eval handleLogin_def initialState_def string_eval)

lemma reachable_scenarioState: "reachable True scenarioState"
  unfolding scenarioState_def
  by (intro reachable_step reachable_init[of True 0])
     (simp_all add: enabled_def gotoButton_def step_eval handleLogin_def initialState_def string_eval)

lemma reachable_confirmState: "reachable True confirmState"
  unfolding confirmState_def
  by (intro reachable_step reachable_scenarioState) (simp add: enabled_def scenario_eval)

lemma verifiedState_eq:
  "verifiedState = scenarioState\<lparr>pendingTransfer := Some scenarioDetail, screen := Confirm,
      biometricStatus := Verified, tasks := [BootTimer, FinalizeTimer scenarioDetail]\<rparr>"
  by (simp add: verifiedState_def confirmState_eq step_eval scenario_eval handleFingerprint_def runTask_def)

lemma reachable_verifiedState: "reachable True verifiedState"
  unfolding verifiedState_def
  by (intro reachable_step reachable_confirmState)
     (simp_all add: enabled_def confirmState_eq step_eval scenario_eval handleFingerprint_def)

section \<open>Invariants of the reachable states\<close>

lemma take_drop_subset: "set (take i xs @ drop (Suc i) xs) \<subseteq> set xs"
  by (auto dest: in_set_takeD in_set_dropD)

lemma list_all_take_drop: "list_all P xs \<Longrightarrow> list_all P (take i xs @ drop (Suc i) xs)"
  using take_drop_subset[of i xs] by (auto simp: list_all_iff)

lemma isLoggedIn_handle: "isLoggedIn s \<Longrightarrow> isLoggedIn (handle cam ev s)"
  by (cases ev)
     (auto simp: handle_def isLoggedIn_def handleLogin_def handleBack_def handleContinueToConfirm_def
        handleFingerprint_def handleBottomNav_def handleStartQrScan_def runTask_def finalizeTransfer_def
        stopCameraStream_def Let_def split: option.splits Task.splits)

lemma loggedOutInv_handle:
  assumes "loggedOutInv s" and "enabled s ev"
  shows "loggedOutInv (handle cam ev s)"
proof (cases "isLoggedIn s")
  case True
  then show ?thesis using isLoggedIn_handle[of s cam ev] by (simp add: loggedOutInv_def)
next
  case False
  then have s: "screen s = Login" "list_all (\<lambda>t. t = BootTimer) (tasks s)" "userName s = []"
    using assms(1) by (auto simp: loggedOutInv_def isLoggedIn_def)
  show ?thesis
  proof (cases ev)
    case (RunTask i now rnd oc)
    then have "i < length (tasks s)" using assms(2) by (simp add: enabled_def)
    then have "tasks s ! i = BootTimer" using s(2) by (simp add: list_all_length)
    then show ?thesis using RunTask s list_all_take_drop[OF s(2), of i]
      by (simp add: loggedOutInv_def handle_def runTask_def isLoggedIn_def)
  qed (use s assms(2) in \<open>auto simp: loggedOutInv_def handle_def enabled_def gotoButton_def isLoggedIn_def
        handleLogin_def handleBack_def handleBottomNav_def stopCameraStream_def Let_def\<close>)
qed

lemma renderScreen_inv: "loggedOutInv s \<Longrightarrow> renderScreen s = s"
  by (auto simp: loggedOutInv_def renderScreen_def)

lemma reachable_loggedOutInv: "reachable cam s \<Longrightarrow> loggedOutInv s"
proof (induction rule: reachable.induct)
  case (reachable_init t0)
  show ?case by (simp add: loggedOutInv_def initialState_def)
next
  case (reachable_step s ev)
  then have "loggedOutInv (handle cam ev s)" by (intro loggedOutInv_handle)
  then show ?case by (simp add: step_def renderScreen_inv)
qed

lemma step_eq_handle: "reachable cam s \<Longrightarrow> enabled s ev \<Longrightarrow> step cam ev s = handle cam ev s"
  using loggedOutInv_handle[OF reachable_loggedOutInv] by (simp add: step_def renderScreen_inv)

lemma noCamInv_handle:
  assumes "noCamInv s" and "enabled s ev"
  shows "noCamInv (handle False ev s)"
proof (cases ev)
  case (RunTask i now rnd oc)
  let ?P = "\<lambda>t. case t of CameraRequest _ \<Rightarrow> False | ScanTimer _ \<Rightarrow> False | _ \<Rightarrow> True"
  have l: "list_all ?P (tasks s)" using assms(1) by (simp add: noCamInv_def)
  have "i < length (tasks s)" using assms(2) RunTask by (simp add: enabled_def)
  then have "?P (tasks s ! i)" using l by (simp add: list_all_length)
  then show ?thesis
    using RunTask assms(1) list_all_take_drop[OF l, of i]
    by (cases "tasks s ! i")
       (simp_all add: noCamInv_def handle_def runTask_def finalizeTransfer_def Let_def)
qed (use assms in \<open>auto simp: noCamInv_def handle_def enabled_def gotoButton_def
        handleLogin_def handleBack_def handleBottomNav_def handleContinueToConfirm_def
        handleFingerprint_def handleStartQrScan_def stopCameraStream_def Let_def
        split: option.splits Screen.splits if_splits\<close>)

lemma noCamInv_renderScreen: "noCamInv s \<Longrightarrow> noCamInv (renderScreen s)"
  by (simp add: noCamInv_def renderScreen_def)

lemma reachable_noCamInv: "reachable False s \<Longrightarrow> noCamInv s"
proof (induction rule: reachable.induct)
  case (reachable_init t0)
  show ?case by (simp add: noCamInv_def initialState_def)
next
  case (reachable_step s ev)
  then show ?case by (simp add: step_def noCamInv_renderScreen noCamInv_handle)
qed

lemma balanceInv_finalize:
  assumes "balanceInv s" and "js_nonneg (detail_amount d)"
  shows "balanceInv (finalizeTransfer now d s)
         \<and> js_le (balance (finalizeTransfer now d s)) (balance s)"
proof -
  from assms(1) obtain b where b: "balance s = Fin b" "0 \<le> b" "is_double b"
    by (auto simp: balanceInv_def)
  from commit_balance[OF b(2,3) assms(2)] obtain b' where
    b': "Math_max (Fin 0) (js_sub (Fin b) (detail_amount d)) = Fin b'" "0 \<le> b'" "b' \<le> b" "is_double b'"
    by blast
  show ?thesis using assms(1) b b'
    by (simp add: balanceInv_def finalizeTransfer_def Let_def js_le_def)
qed

lemma balanceInv_handle:
  assumes "balanceInv s" and "enabled s ev"
  shows "balanceInv (handle cam ev s) \<and> js_le (balance (handle cam ev s)) (balance s)"
proof -
  from assms(1) obtain b where b: "balance s = Fin b" "0 \<le> b" "is_double b"
    by (auto simp: balanceInv_def)
  have refl: "js_le (balance s) (balance s)" using b by (simp add: js_le_def)
  show ?thesis
  proof (cases ev)
    case (RunTask i now rnd oc)
    have l: "list_all amountInv (tasks s)" using assms(1) by (simp add: balanceInv_def)
    have il: "i < length (tasks s)" using assms(2) RunTask by (simp add: enabled_def)
    then have t: "amountInv (tasks s ! i)" using l by (simp add: list_all_length)
    have inv': "balanceInv (s\<lparr>tasks := take i (tasks s) @ drop (Suc i) (tasks s)\<rparr>)"
      using assms(1) list_all_take_drop[OF l, of i] by (simp add: balanceInv_def)
    show ?thesis
    proof (cases "tasks s ! i")
      case (FinalizeTimer d)
      then have "js_nonneg (detail_amount d)" using t by (simp add: amountInv_def)
      from balanceInv_finalize[OF inv' this, of now] show ?thesis
        using RunTask FinalizeTimer il by (simp add: handle_def runTask_def)
    next
      case (VerifyTimer d)
      then show ?thesis using RunTask inv' refl t il
        by (simp add: handle_def runTask_def balanceInv_def amountInv_def)
    qed (use RunTask inv' refl il in \<open>auto simp: handle_def runTask_def balanceInv_def amountInv_def
           stopCameraStream_def split: option.splits\<close>)
  next
    case (ClickContinue now year rnd)
    have gt: "js_truthy v \<and> \<not> js_le v (Fin 0) \<Longrightarrow> js_greater v (Fin 0)" for v
      by (cases v) (auto simp: js_greater_def js_truthy_def js_le_def)
    show ?thesis using ClickContinue assms(1) refl amount_nonneg[OF gt, of "amountValue (draft s)"]
      by (auto simp: handle_def handleContinueToConfirm_def Let_def balanceInv_def)
  next
    case ClickFingerprint
    then show ?thesis using assms(1) refl
      by (auto simp: handle_def handleFingerprint_def balanceInv_def amountInv_def split: option.splits)
  qed (use assms(1) refl in \<open>auto simp: handle_def balanceInv_def amountInv_def
        handleLogin_def handleBack_def handleBottomNav_def handleStartQrScan_def
        stopCameraStream_def Let_def\<close>)
qed

lemma balanceInv_renderScreen: "balanceInv (renderScreen s) = balanceInv s"
  by (simp add: balanceInv_def renderScreen_def)

lemma balance_renderScreen [simp]: "balance (renderScreen s) = balance s"
  by (simp add: renderScreen_def)

lemma reachable_balanceInv: "reachable cam s \<Longrightarrow> balanceInv s"
proof (induction rule: reachable.induct)
  case (reachable_init t0)
  have "is_double 125000" using is_double_of_int[of 125000] by simp
  then show ?case by (auto simp: balanceInv_def initialState_def amountInv_def)
next
  case (reachable_step s ev)
  then show ?case using balanceInv_handle[of s ev cam] by (simp add: step_def balanceInv_renderScreen)
qed

lemma balance_changes_only_by_commit:
  assumes "enabled s ev" and "balance (handle cam ev s) \<noteq> balance s"
  shows "\<exists>i now rnd oc d. ev = RunTask i now rnd oc \<and> i < length (tasks s) \<and> tasks s ! i = FinalizeTimer d
           \<and> balance (handle cam ev s) = Math_max (Fin 0) (js_sub (balance s) (detail_amount d))"
proof (cases ev)
  case (RunTask i now rnd oc)
  then have "i < length (tasks s)" using assms(1) by (simp add: enabled_def)
  then show ?thesis using RunTask assms(2)
    by (cases "tasks s ! i")
       (auto simp: handle_def runTask_def finalizeTransfer_def Let_def stopCameraStream_def
          split: option.splits if_splits)
qed (use assms(2) in \<open>auto simp: handle_def handleLogin_def handleBack_def handleBottomNav_def
        handleStartQrScan_def handleContinueToConfirm_def handleFingerprint_def
        stopCameraStream_def Let_def split: option.splits if_splits\<close>)

section \<open>Committing a transfer (claim C1)\<close>

text \<open>
  Claim C1.  For every transfer detail, \<^verbatim>\<open>finalizeTransfer\<close> puts exactly one new
  entry in front of the history, with the detail's reference as id, its recipient, note
  and amount, the direction \<open>sent\<close> and the commit time; the history grows by one and
  the earlier entries follow unchanged.  The balance becomes
  \<^verbatim>\<open>Math.max(0, balance - amount)\<close>, which is the number \<open>max 0 (b - a)\<close> whenever the
  difference is a double.  The detail, stamped with the commit time, becomes
  \<^verbatim>\<open>lastTransfer\<close>; the draft is emptied, the pending detail cleared, the biometric
  status reset and the screen set to \<open>success\<close>.  The timer that
  \<^verbatim>\<open>handleFingerprint\<close> schedules runs exactly this function.
\<close>

theorem finalizeTransfer_commit:
  "history (finalizeTransfer now d s) =
      \<lparr>entry_id = detail_reference d, entry_recipient = detail_recipient d,
       entry_note = detail_note d, entry_amount = detail_amount d,
       entry_direction = Sent, entry_timestamp = now\<rparr> # history s
   \<and> length (history (finalizeTransfer now d s)) = length (history s) + 1
   \<and> drop 1 (history (finalizeTransfer now d s)) = history s
   \<and> balance (finalizeTransfer now d s) = Math_max (Fin 0) (js_sub (balance s) (detail_amount d))
   \<and> (\<forall>b a. balance s = Fin b \<longrightarrow> detail_amount d = Fin a \<longrightarrow> fl (b - a) = Fin (b - a) \<longrightarrow>
          balance (finalizeTransfer now d s) = Fin (max 0 (b - a)))
   \<and> lastTransfer (finalizeTransfer now d s) = Some (d\<lparr>detail_timestamp := now\<rparr>)
   \<and> draft (finalizeTransfer now d s) = \<lparr>draft_recipient = [], draft_amount = [], draft_note = []\<rparr>
   \<and> pendingTransfer (finalizeTransfer now d s) = None
   \<and> biometricStatus (finalizeTransfer now d s) = BioIdle
   \<and> screen (finalizeTransfer now d s) = Success
   \<and> runTask now rnd outcome (FinalizeTimer d) s = finalizeTransfer now d s"
  by (auto simp add: finalizeTransfer_def Let_def defaultDraft_def runTask_def js_sub_def Math_max_def max_def)

theorem finalizeTransfer_commit_witness:
  "balance scenarioState = Fin 125000 \<and> detail_amount scenarioDetail = Fin 2000
   \<and> fl (125000 - 2000) = Fin (125000 - 2000)
   \<and> balance (finalizeTransfer 2000 scenarioDetail scenarioState) = Fin 123000
   \<and> hd (history (finalizeTransfer 2000 scenarioDetail scenarioState)) =
        \<lparr>entry_id = ''TP-2026-55000'', entry_recipient = ''Asha'', entry_note = ''lunch'',
         entry_amount = Fin 2000, entry_direction = Sent, entry_timestamp = 2000\<rparr>
   \<and> length (history (finalizeTransfer 2000 scenarioDetail scenarioState)) = 4"
proof -
  note t = finalizeTransfer_commit[of 2000 scenarioDetail scenarioState 0 None]
  have b: "balance scenarioState = Fin 125000" by (simp add: scenario_eval)
  have a: "detail_amount scenarioDetail = Fin 2000" by (simp add: scenarioDetail_def)
  have f: "fl (125000 - 2000) = Fin (125000 - 2000)" by simp
  from t b a f have "balance (finalizeTransfer 2000 scenarioDetail scenarioState) = Fin (max 0 (125000 - 2000))"
    by blast
  then have 1: "balance (finalizeTransfer 2000 scenarioDetail scenarioState) = Fin 123000" by simp
  from t have h: "history (finalizeTransfer 2000 scenarioDetail scenarioState) =
      \<lparr>entry_id = detail_reference scenarioDetail, entry_recipient = detail_recipient scenarioDetail,
       entry_note = detail_note scenarioDetail, entry_amount = detail_amount scenarioDetail,
       entry_direction = Sent, entry_timestamp = 2000\<rparr> # history scenarioState"
    by blast
  have 2: "hd (history (finalizeTransfer 2000 scenarioDetail scenarioState)) =
        \<lparr>entry_id = ''TP-2026-55000'', entry_recipient = ''Asha'', entry_note = ''lunch'',
         entry_amount = Fin 2000, entry_direction = Sent, entry_timestamp = 2000\<rparr>"
    unfolding h by (simp add: scenarioDetail_def)
  have 3: "length (history (finalizeTransfer 2000 scenarioDetail scenarioState)) = 4"
    unfolding h by (simp add: scenario_eval)
  from b a f 1 2 3 show ?thesis by blast
qed

section \<open>The balance (claim C2)\<close>

text \<open>
  Claim C2.  In every reachable state the balance is a number that is at least \<open>0\<close>,
  and no event of a reachable state increases it.  The only event that changes it is the
  run of a finalize timer, that is \<^verbatim>\<open>finalizeTransfer\<close>, which sets it to
  \<^verbatim>\<open>Math.max(0, balance - amount)\<close>.  A draft whose amount exceeds the balance is
  rejected by \<^verbatim>\<open>handleContinueToConfirm\<close> with nothing changed but the error message.
\<close>

theorem balance_never_negative:
  "(reachable cam s \<longrightarrow> js_le (Fin 0) (balance s))
   \<and> (reachable cam s \<longrightarrow> enabled s ev \<longrightarrow> js_le (balance (step cam ev s)) (balance s))
   \<and> (enabled s ev \<longrightarrow> balance (step cam ev s) \<noteq> balance s \<longrightarrow>
         (\<exists>i now rnd oc d. ev = RunTask i now rnd oc \<and> i < length (tasks s) \<and> tasks s ! i = FinalizeTimer d
            \<and> balance (step cam ev s) = Math_max (Fin 0) (js_sub (balance s) (detail_amount d))))
   \<and> (js_greater (amountValue (draft s)) (balance s) \<longrightarrow>
         (\<exists>msg. handleContinueToConfirm now year rnd s = s\<lparr>transferError := msg\<rparr>))"
proof -
  have 1: "reachable cam s \<longrightarrow> js_le (Fin 0) (balance s)"
    using reachable_balanceInv[of cam s] by (auto simp: balanceInv_def js_le_def)
  have 2: "reachable cam s \<longrightarrow> enabled s ev \<longrightarrow> js_le (balance (step cam ev s)) (balance s)"
    using reachable_balanceInv[of cam s] balanceInv_handle[of s ev cam] by (simp add: step_def)
  have 3: "enabled s ev \<longrightarrow> balance (step cam ev s) \<noteq> balance s \<longrightarrow>
         (\<exists>i now rnd oc d. ev = RunTask i now rnd oc \<and> i < length (tasks s) \<and> tasks s ! i = FinalizeTimer d
            \<and> balance (step cam ev s) = Math_max (Fin 0) (js_sub (balance s) (detail_amount d)))"
    using balance_changes_only_by_commit[of s ev cam] by (simp add: step_def)
  have 4: "js_greater (amountValue (draft s)) (balance s) \<longrightarrow>
         (\<exists>msg. handleContinueToConfirm now year rnd s = s\<lparr>transferError := msg\<rparr>)"
    by (auto simp: handleContinueToConfirm_def Let_def)
  from 1 2 3 4 show ?thesis by blast
qed

theorem balance_never_negative_witness:
  "reachable True verifiedState
   \<and> enabled verifiedState (RunTask 1 2000 0 None)
   \<and> tasks verifiedState ! 1 = FinalizeTimer scenarioDetail
   \<and> balance verifiedState = Fin 125000
   \<and> balance (step True (RunTask 1 2000 0 None) verifiedState) = Fin 123000
   \<and> js_le (Fin 0) (balance verifiedState)
   \<and> js_le (balance (step True (RunTask 1 2000 0 None) verifiedState)) (balance verifiedState)
   \<and> js_greater (amountValue (draft (step True (SetAmount ''200000'') scenarioState)))
        (balance (step True (SetAmount ''200000'') scenarioState))
   \<and> balance (handleContinueToConfirm 1000 2026 (1 / 2) (step True (SetAmount ''200000'') scenarioState))
        = Fin 125000"
proof -
  let ?ev = "RunTask 1 2000 0 None"
  let ?s = "step True (SetAmount ''200000'') scenarioState"
  note t = balance_never_negative[of True verifiedState ?ev]
  have 1: "reachable True verifiedState" by (rule reachable_verifiedState)
  have 2: "enabled verifiedState ?ev" by (simp add: enabled_def verifiedState_eq)
  have 3: "tasks verifiedState ! 1 = FinalizeTimer scenarioDetail" by (simp add: verifiedState_eq)
  have 4: "balance verifiedState = Fin 125000" by (simp add: verifiedState_eq scenario_eval)
  have 5: "balance (step True ?ev verifiedState) = Fin 123000"
    by (simp add: verifiedState_eq step_eval scenario_eval runTask_def finalizeTransfer_def Let_def
        scenarioDetail_def js_sub_def Math_max_def)
  from t 1 have 6: "js_le (Fin 0) (balance verifiedState)" by blast
  from t 1 2 have 7: "js_le (balance (step True ?ev verifiedState)) (balance verifiedState)" by blast
  have s: "?s = scenarioState\<lparr>draft := \<lparr>draft_recipient = ''Asha'', draft_amount = ''200000'', draft_note = ''lunch''\<rparr>\<rparr>"
    by (simp add: step_eval scenario_eval)
  have 8: "js_greater (amountValue (draft ?s)) (balance ?s)"
    unfolding s by (simp add: scenario_eval number_eval string_eval js_greater_def)
  from balance_never_negative[of True ?s ?ev 1000 2026 "1 / 2"] 8
  obtain msg where "handleContinueToConfirm 1000 2026 (1 / 2) ?s = ?s\<lparr>transferError := msg\<rparr>" by blast
  then have "balance (handleContinueToConfirm 1000 2026 (1 / 2) ?s) = balance ?s"
    by simp
  also have "balance ?s = Fin 125000" unfolding s by (simp add: scenario_eval)
  finally have 9: "balance (handleContinueToConfirm 1000 2026 (1 / 2) ?s) = Fin 125000" .
  from 1 2 3 4 5 6 7 8 9 show ?thesis by (intro conjI)
qed

section \<open>Validation of a draft (claims C3 to C6)\<close>

text \<open>
  Claim C3.  A draft with a recipient that is not blank and an amount that is positive
  and at most the balance yields a pending detail: the amount is
  \<^verbatim>\<open>Math.round(v * 100) / 100\<close> (on the positive product \<^verbatim>\<open>Math.round\<close> rounds a
  tie away from zero), recipient and note are the trimmed fields of the draft, the
  reference is \<open>TP-\<close>, the year, \<open>-\<close> and a number of five digits between 10000 and
  99999, and the timestamp is the current time.  The screen becomes \<open>confirm\<close>; balance,
  history, \<^verbatim>\<open>lastTransfer\<close> and the draft stay as they are.  The random draw is a
  double in \<open>[0, 1)\<close>, as \<^verbatim>\<open>Math.random\<close> promises.
\<close>

theorem continue_creates_detail:
  assumes "\<not> blank (draft_recipient (draft s))"
    and "js_greater (amountValue (draft s)) (Fin 0)"
    and "js_le (amountValue (draft s)) (balance s)"
    and "fl rnd = Fin rnd" and "0 \<le> rnd" and "rnd < 1"
  shows "handleContinueToConfirm now year rnd s =
           s\<lparr>transferError := [],
             pendingTransfer := Some
               \<lparr>detail_recipient = trim (draft_recipient (draft s)),
                detail_amount = js_div (Math_round (js_mul (amountValue (draft s)) (Fin 100))) (Fin 100),
                detail_note = trim (draft_note (draft s)),
                detail_reference = generateReferenceId year rnd,
                detail_timestamp = now\<rparr>,
             screen := Confirm\<rparr>
       \<and> (\<forall>y. js_mul (amountValue (draft s)) (Fin 100) = Fin y \<longrightarrow>
              Math_round (Fin y) = Fin (of_int (round_half_away y)))
       \<and> (\<exists>n. 10000 \<le> n \<and> n \<le> 99999
              \<and> generateReferenceId year rnd = ''TP-'' @ toString_int year @ ''-'' @ toString_nat n
              \<and> length (toString_nat n) = 5 \<and> list_all isDigit (toString_nat n))
       \<and> balance (handleContinueToConfirm now year rnd s) = balance s
       \<and> history (handleContinueToConfirm now year rnd s) = history s
       \<and> lastTransfer (handleContinueToConfirm now year rnd s) = lastTransfer s
       \<and> draft (handleContinueToConfirm now year rnd s) = draft s"
proof -
  define v where "v = amountValue (draft s)"
  have r: "trim (draft_recipient (draft s)) \<noteq> []" using assms(1) by (simp add: trim_empty_iff)
  have gt: "js_truthy v \<and> \<not> js_le v (Fin 0)" using assms(2) unfolding v_def[symmetric]
    by (cases v) (auto simp: js_greater_def js_truthy_def js_le_def)
  have le: "\<not> js_greater v (balance s)" using assms(3) unfolding v_def[symmetric]
    by (simp add: js_le_def js_greater_def)
  have 1: "handleContinueToConfirm now year rnd s =
           s\<lparr>transferError := [],
             pendingTransfer := Some
               \<lparr>detail_recipient = trim (draft_recipient (draft s)),
                detail_amount = js_div (Math_round (js_mul v (Fin 100))) (Fin 100),
                detail_note = trim (draft_note (draft s)),
                detail_reference = generateReferenceId year rnd,
                detail_timestamp = now\<rparr>,
             screen := Confirm\<rparr>"
    using r gt le by (simp add: handleContinueToConfirm_def Let_def v_def[symmetric])
  have 2: "Math_round (Fin y) = Fin (of_int (round_half_away y))" if "js_mul v (Fin 100) = Fin y" for y
  proof -
    have "0 \<le> y"
    proof (cases v)
      case (Fin a)
      then have "0 < a" using assms(2) by (simp add: v_def[symmetric] js_greater_def)
      then have "js_nonneg (fl (a * 100))" by (intro fl_nonneg) simp
      then show ?thesis using that Fin by (simp add: js_nonneg_cases)
    qed (use that in simp_all)
    then show ?thesis by (simp add: round_half_away_def)
  qed
  from reference_number[OF assms(4,5,6)] obtain n where
    n: "Math_floor (js_add (Fin 10000) (js_mul (Fin rnd) (Fin 90000))) = Fin (of_int n)"
       "10000 \<le> n" "n \<le> 99999" by blast
  have "generateReferenceId year rnd = ''TP-'' @ toString_int year @ ''-'' @ toString_nat (nat n)"
    using n by (simp add: generateReferenceId_def toString_int_def)
  moreover have "length (toString_nat (nat n)) = 5 \<and> list_all isDigit (toString_nat (nat n))"
    using n by (intro toString_nat_five) simp_all
  moreover have "10000 \<le> nat n \<and> nat n \<le> 99999" using n(2,3) by linarith
  ultimately have 3: "\<exists>n. 10000 \<le> n \<and> n \<le> 99999
              \<and> generateReferenceId year rnd = ''TP-'' @ toString_int year @ ''-'' @ toString_nat n
              \<and> length (toString_nat n) = 5 \<and> list_all isDigit (toString_nat n)" by blast
  from 1 2 3 show ?thesis unfolding v_def[symmetric] by simp
qed

theorem continue_creates_detail_witness:
  "\<not> blank (draft_recipient (draft scenarioState))
   \<and> js_greater (amountValue (draft scenarioState)) (Fin 0)
   \<and> js_le (amountValue (draft scenarioState)) (balance scenarioState)
   \<and> fl (1 / 2) = Fin (1 / 2)
   \<and> handleContinueToConfirm 1000 2026 (1 / 2) scenarioState =
        scenarioState\<lparr>transferError := [],
          pendingTransfer := Some
            \<lparr>detail_recipient = ''Asha'', detail_amount = Fin 2000, detail_note = ''lunch'',
             detail_reference = ''TP-2026-55000'', detail_timestamp = 1000\<rparr>,
          screen := Confirm\<rparr>
   \<and> balance (handleContinueToConfirm 1000 2026 (1 / 2) scenarioState) = Fin 125000"
proof -
  have 1: "\<not> blank (draft_recipient (draft scenarioState))"
    by (simp add: scenario_eval string_eval)
  have v: "amountValue (draft scenarioState) = Fin 2000"
    by (simp add: scenario_eval number_eval string_eval)
  have 2: "js_greater (amountValue (draft scenarioState)) (Fin 0)" by (simp add: v js_greater_def)
  have 3: "js_le (amountValue (draft scenarioState)) (balance scenarioState)"
    unfolding v by (simp add: js_le_def scenario_eval)
  have "is_double (of_int 1 * 2 powi (- 1))" by (rule is_double_dyadic) simp_all
  then have 4: "fl (1 / 2) = Fin (1 / 2)" using fl_double[of "1 / 2"] by (simp add: power_int_minus_divide)
  have r0: "(0::rat) \<le> 1 / 2" and r1: "(1 / 2 :: rat) < 1" by simp_all
  note t = continue_creates_detail[OF 1 2 3 4 r0 r1, of 1000 2026]
  have 5: "handleContinueToConfirm 1000 2026 (1 / 2) scenarioState =
        scenarioState\<lparr>transferError := [],
          pendingTransfer := Some
            \<lparr>detail_recipient = ''Asha'', detail_amount = Fin 2000, detail_note = ''lunch'',
             detail_reference = ''TP-2026-55000'', detail_timestamp = 1000\<rparr>,
          screen := Confirm\<rparr>"
  proof -
    have dr: "draft scenarioState = \<lparr>draft_recipient = ''Asha'', draft_amount = ''2000'', draft_note = ''lunch''\<rparr>"
      by (simp add: scenario_eval)
    from t have "handleContinueToConfirm 1000 2026 (1 / 2) scenarioState =
           scenarioState\<lparr>transferError := [],
             pendingTransfer := Some
               \<lparr>detail_recipient = trim (draft_recipient (draft scenarioState)),
                detail_amount = js_div (Math_round (js_mul (amountValue (draft scenarioState)) (Fin 100))) (Fin 100),
                detail_note = trim (draft_note (draft scenarioState)),
                detail_reference = generateReferenceId 2026 (1 / 2),
                detail_timestamp = 1000\<rparr>,
             screen := Confirm\<rparr>" by blast
    from this[unfolded v, unfolded dr] show ?thesis
      by (simp add: reference_2026 arith_eval string_eval)
  qed
  have 6: "balance (handleContinueToConfirm 1000 2026 (1 / 2) scenarioState) = Fin 125000"
    unfolding 5 by (simp add: scenario_eval)
  from 1 2 3 4 5 6 show ?thesis by (intro conjI)
qed

text \<open>
  Claim C4.  With a recipient that is not blank, a positive amount above the balance
  is rejected with the message of \<open>InsufficientBalance\<close> and nothing else changes; an
  amount equal to the balance passes; and with balance 500 the amount \<open>600\<close> is
  rejected and the balance stays 500.
\<close>

theorem insufficient_balance_rejected:
  assumes "\<not> blank (draft_recipient (draft s))"
  shows "(js_greater (amountValue (draft s)) (Fin 0) \<and> js_greater (amountValue (draft s)) (balance s) \<longrightarrow>
            handleContinueToConfirm now year rnd s = s\<lparr>transferError := validationMessage InsufficientBalance\<rparr>)
       \<and> (js_greater (amountValue (draft s)) (Fin 0) \<and> amountValue (draft s) = balance s \<longrightarrow>
            transferError (handleContinueToConfirm now year rnd s) = []
            \<and> pendingTransfer (handleContinueToConfirm now year rnd s) \<noteq> None
            \<and> screen (handleContinueToConfirm now year rnd s) = Confirm)
       \<and> (balance s = Fin 500 \<and> draft_amount (draft s) = ''600'' \<longrightarrow>
            handleContinueToConfirm now year rnd s = s\<lparr>transferError := validationMessage InsufficientBalance\<rparr>
            \<and> balance (handleContinueToConfirm now year rnd s) = Fin 500)"
proof -
  have gt: "js_greater v (Fin 0) \<Longrightarrow> js_truthy v \<and> \<not> js_le v (Fin 0)" for v
    by (cases v) (auto simp: js_greater_def js_truthy_def js_le_def)
  have irr: "\<not> js_greater v v" for v
    by (cases v) (auto simp: js_greater_def)
  have n600: "js_Number ''600'' = Fin 600"
    by (simp add: number_eval string_eval)
  show ?thesis
    using assms gt[of "amountValue (draft s)"] irr[of "balance s"]
    by (auto simp add: handleContinueToConfirm_def Let_def trim_empty_iff amountValue_def
        removeCommas_def n600 js_greater_def js_truthy_def js_le_def)
qed

theorem insufficient_balance_rejected_witness:
  "\<not> blank (draft_recipient (draft (scenarioState\<lparr>balance := Fin 500\<rparr>)))
   \<and> balance (handleContinueToConfirm 1000 2026 (1 / 2)
        (handle True (SetAmount ''600'') (scenarioState\<lparr>balance := Fin 500\<rparr>))) = Fin 500
   \<and> transferError (handleContinueToConfirm 1000 2026 (1 / 2)
        (handle True (SetAmount ''600'') (scenarioState\<lparr>balance := Fin 500\<rparr>))) = ''Insufficient balance''
   \<and> screen (handleContinueToConfirm 1000 2026 (1 / 2)
        (handle True (SetAmount ''600'') (scenarioState\<lparr>balance := Fin 500\<rparr>))) = Transfer
   \<and> js_greater (amountValue (draft (scenarioState\<lparr>balance := Fin 2000\<rparr>))) (Fin 0)
   \<and> amountValue (draft (scenarioState\<lparr>balance := Fin 2000\<rparr>)) = balance (scenarioState\<lparr>balance := Fin 2000\<rparr>)
   \<and> screen (handleContinueToConfirm 1000 2026 (1 / 2) (scenarioState\<lparr>balance := Fin 2000\<rparr>)) = Confirm"
  using insufficient_balance_rejected[of "handle True (SetAmount ''600'') (scenarioState\<lparr>balance := Fin 500\<rparr>)" 1000 2026 "1 / 2"]
    insufficient_balance_rejected[of "scenarioState\<lparr>balance := Fin 2000\<rparr>" 1000 2026 "1 / 2"]
  by (simp add: scenario_eval handle_def string_eval number_eval js_greater_def)

lemma js_greater_zero_iff: "js_greater v (Fin 0) = (v = PosInf \<or> positiveFinite v)"
  by (cases v) (auto simp: js_greater_def positiveFinite_def)

text \<open>
  Claim C5, as the code has it.  With a recipient that is not blank, the draft is
  rejected with the message of \<open>InvalidAmount\<close> exactly when the parsed amount is not
  greater than \<open>0\<close>, that is when it is NaN, zero, negative or \<open>-Infinity\<close>; then
  nothing else changes.  An amount that parses as \<open>+Infinity\<close> is not an
  \<open>InvalidAmount\<close>: it fails the balance check and is rejected with the message of
  \<open>InsufficientBalance\<close>.
\<close>

theorem invalid_amount_iff:
  assumes "\<not> blank (draft_recipient (draft s))"
  shows "(js_greater (amountValue (draft s)) (Fin 0) \<longrightarrow>
            transferError (handleContinueToConfirm now year rnd s) \<noteq> validationMessage InvalidAmount)
       \<and> (\<not> js_greater (amountValue (draft s)) (Fin 0) \<longrightarrow>
            handleContinueToConfirm now year rnd s = s\<lparr>transferError := validationMessage InvalidAmount\<rparr>
            \<and> pendingTransfer (handleContinueToConfirm now year rnd s) = pendingTransfer s
            \<and> screen (handleContinueToConfirm now year rnd s) = screen s)
       \<and> js_greater (amountValue (draft s)) (Fin 0)
            = (amountValue (draft s) = PosInf \<or> positiveFinite (amountValue (draft s)))
       \<and> (amountValue (draft s) = PosInf \<longrightarrow> js_less (balance s) PosInf \<longrightarrow>
            handleContinueToConfirm now year rnd s = s\<lparr>transferError := validationMessage InsufficientBalance\<rparr>)"
proof -
  define v where "v = amountValue (draft s)"
  have r: "trim (draft_recipient (draft s)) \<noteq> []" using assms by (simp add: trim_empty_iff)
  show ?thesis
    unfolding handleContinueToConfirm_def Let_def v_def[symmetric] using r
    by (cases v) (simp_all add: js_greater_def js_truthy_def js_le_def positiveFinite_def)
qed

theorem invalid_amount_iff_witness:
  "\<not> blank (draft_recipient (draft (step True (SetAmount ''abc'') scenarioState)))
   \<and> \<not> js_greater (amountValue (draft (step True (SetAmount ''abc'') scenarioState))) (Fin 0)
   \<and> transferError (handleContinueToConfirm 1000 2026 (1 / 2) (step True (SetAmount ''abc'') scenarioState))
        = ''Enter an amount above LKR 0''
   \<and> screen (handleContinueToConfirm 1000 2026 (1 / 2) (step True (SetAmount ''abc'') scenarioState)) = Transfer
   \<and> js_greater (amountValue (draft infinityState)) (Fin 0)
   \<and> amountValue (draft infinityState) = PosInf
   \<and> js_less (balance infinityState) PosInf
   \<and> transferError (handleContinueToConfirm 1000 2026 (1 / 2) infinityState) = ''Insufficient balance''"
proof -
  let ?s = "step True (SetAmount ''abc'') scenarioState"
  have s: "?s = scenarioState\<lparr>draft := \<lparr>draft_recipient = ''Asha'', draft_amount = ''abc'', draft_note = ''lunch''\<rparr>\<rparr>"
    by (simp add: step_eval scenario_eval)
  have 1: "\<not> blank (draft_recipient (draft ?s))" unfolding s by (simp add: scenario_eval string_eval)
  have 2: "\<not> js_greater (amountValue (draft ?s)) (Fin 0)"
    unfolding s by (simp add: scenario_eval number_eval string_eval js_greater_def)
  have 3: "\<not> blank (draft_recipient (draft infinityState))"
    by (simp add: infinityState_eq scenario_eval string_eval)
  have 4: "amountValue (draft infinityState) = PosInf"
    by (simp add: infinityState_eq scenario_eval number_eval string_eval)
  have 5: "js_less (balance infinityState) PosInf"
    by (simp add: infinityState_eq scenario_eval)
  have 6: "screen ?s = Transfer" unfolding s by (simp add: scenario_eval)
  note a = invalid_amount_iff[OF 1, of 1000 2026 "1 / 2"]
  note b = invalid_amount_iff[OF 3, of 1000 2026 "1 / 2"]
  from a 2 have "handleContinueToConfirm 1000 2026 (1 / 2) ?s = ?s\<lparr>transferError := validationMessage InvalidAmount\<rparr>"
    by blast
  then have 7: "transferError (handleContinueToConfirm 1000 2026 (1 / 2) ?s) = ''Enter an amount above LKR 0''"
    and 8: "screen (handleContinueToConfirm 1000 2026 (1 / 2) ?s) = Transfer"
    using 6 by simp_all
  from b 4 5 have "handleContinueToConfirm 1000 2026 (1 / 2) infinityState
      = infinityState\<lparr>transferError := validationMessage InsufficientBalance\<rparr>" by blast
  then have 9: "transferError (handleContinueToConfirm 1000 2026 (1 / 2) infinityState) = ''Insufficient balance''"
    by simp
  have 10: "js_greater (amountValue (draft infinityState)) (Fin 0)" using 4 by (simp add: js_greater_def)
  from 1 2 7 8 10 4 5 9 show ?thesis by blast
qed

text \<open>
  The claim as it is worded counts a non-finite amount among the invalid ones.  The
  amount \<open>Infinity\<close> is not a positive finite number, and it is rejected as
  insufficient balance, not as an invalid amount.
\<close>

theorem infinity_amount_counterexample:
  "\<not> blank (draft_recipient (draft infinityState))
   \<and> amountValue (draft infinityState) = PosInf
   \<and> \<not> positiveFinite (amountValue (draft infinityState))
   \<and> transferError (handleContinueToConfirm 1000 2026 (1 / 2) infinityState)
        = validationMessage InsufficientBalance
   \<and> transferError (handleContinueToConfirm 1000 2026 (1 / 2) infinityState)
        \<noteq> validationMessage InvalidAmount"
  by (simp add: infinityState_eq scenario_eval number_eval string_eval positiveFinite_def
      handleContinueToConfirm_def Let_def js_truthy_def js_le_def js_greater_def)

text \<open>
  Claim C6.  A draft whose recipient is blank is rejected with the message of
  \<open>EmptyRecipient\<close> whatever its amount is; nothing else changes, so no pending transfer
  is created and the screen stays.
\<close>

theorem blank_recipient_rejected:
  assumes "blank (draft_recipient (draft s))"
  shows "handleContinueToConfirm now year rnd s = s\<lparr>transferError := validationMessage EmptyRecipient\<rparr>
         \<and> pendingTransfer (handleContinueToConfirm now year rnd s) = pendingTransfer s
         \<and> screen (handleContinueToConfirm now year rnd s) = screen s"
  using assms by (simp add: handleContinueToConfirm_def Let_def trim_empty_iff)

theorem blank_recipient_rejected_witness:
  "blank (draft_recipient (draft (blankRecipientState ''abc'')))
   \<and> blank (draft_recipient (draft (blankRecipientState ''-5'')))
   \<and> blank (draft_recipient (draft (blankRecipientState ''999999'')))
   \<and> amountValue (draft (blankRecipientState ''abc'')) = NaN
   \<and> amountValue (draft (blankRecipientState ''-5'')) = Fin (- 5)
   \<and> js_greater (amountValue (draft (blankRecipientState ''999999''))) (balance (blankRecipientState ''999999''))
   \<and> transferError (handleContinueToConfirm 1000 2026 (1 / 2) (blankRecipientState ''abc'')) = ''Add a recipient name''
   \<and> transferError (handleContinueToConfirm 1000 2026 (1 / 2) (blankRecipientState ''-5'')) = ''Add a recipient name''
   \<and> transferError (handleContinueToConfirm 1000 2026 (1 / 2) (blankRecipientState ''999999'')) = ''Add a recipient name''
   \<and> pendingTransfer (handleContinueToConfirm 1000 2026 (1 / 2) (blankRecipientState ''abc'')) = None
   \<and> screen (handleContinueToConfirm 1000 2026 (1 / 2) (blankRecipientState ''abc'')) = Transfer"
proof -
  have s: "blankRecipientState amt =
      scenarioState\<lparr>draft := \<lparr>draft_recipient = ''   '', draft_amount = amt, draft_note = ''lunch''\<rparr>\<rparr>" for amt
    by (simp add: blankRecipientState_def step_eval scenario_eval)
  have b: "blank (draft_recipient (draft (blankRecipientState amt)))" for amt
    unfolding s by (simp add: string_eval)
  have 1: "amountValue (draft (blankRecipientState ''abc'')) = NaN"
    unfolding s by (simp add: number_eval string_eval)
  have "is_double (- 5)" using is_double_of_int[of "- 5"] by simp
  then have "fl (- 5) = Fin (- 5)" by (rule fl_double)
  then have 2: "amountValue (draft (blankRecipientState ''-5'')) = Fin (- 5)"
    unfolding s by (simp add: number_eval string_eval)
  have 3: "js_greater (amountValue (draft (blankRecipientState ''999999''))) (balance (blankRecipientState ''999999''))"
    unfolding s by (simp add: number_eval string_eval scenario_eval js_greater_def)
  have e: "transferError (handleContinueToConfirm 1000 2026 (1 / 2) (blankRecipientState amt)) = ''Add a recipient name''" for amt
    using blank_recipient_rejected[OF b[of amt], of 1000 2026 "1 / 2"] by simp
  have ps: "pendingTransfer (blankRecipientState ''abc'') = None" "screen (blankRecipientState ''abc'') = Transfer"
    unfolding s by (simp_all add: scenario_eval)
  have 4: "pendingTransfer (handleContinueToConfirm 1000 2026 (1 / 2) (blankRecipientState ''abc'')) = None"
    and 5: "screen (handleContinueToConfirm 1000 2026 (1 / 2) (blankRecipientState ''abc'')) = Transfer"
    using blank_recipient_rejected[OF b[of "''abc''"], of 1000 2026 "1 / 2"] ps by simp_all
  from b 1 2 3 e 4 5 show ?thesis by (intro conjI)
qed

section \<open>Cancelling a confirmation (claim C7)\<close>

text \<open>
  Claim C7, as the code has it.  On the confirm screen the Cancel button and the back
  button are bare \<^verbatim>\<open>setScreen("transfer")\<close>: the screen becomes \<open>transfer\<close> and
  nothing else changes, so the draft is preserved and the pending detail stays stored
  in \<^verbatim>\<open>pendingTransfer\<close>.  The confirm screen is entered again only by a successful
  \<^verbatim>\<open>handleContinueToConfirm\<close>, which stores a fresh detail in its place.
\<close>

theorem cancel_confirm_frame:
  assumes "screen s = Confirm"
  shows "enabled s (ClickGoto Transfer) \<and> enabled s ClickBack
       \<and> handle cam (ClickGoto Transfer) s = s\<lparr>screen := Transfer\<rparr>
       \<and> handle cam ClickBack s = s\<lparr>screen := Transfer\<rparr>
       \<and> draft (handle cam (ClickGoto Transfer) s) = draft s
       \<and> pendingTransfer (handle cam (ClickGoto Transfer) s) = pendingTransfer s
       \<and> (\<forall>s' ev. screen s' \<noteq> Confirm \<longrightarrow> enabled s' ev \<longrightarrow> screen (handle cam ev s') = Confirm \<longrightarrow>
             (\<exists>now year rnd d. ev = ClickContinue now year rnd
                \<and> pendingTransfer (handle cam ev s') = Some d
                \<and> detail_timestamp d = now
                \<and> detail_reference d = generateReferenceId year rnd))"
proof -
  have re: "\<exists>now year rnd d. ev = ClickContinue now year rnd
                \<and> pendingTransfer (handle cam ev s') = Some d
                \<and> detail_timestamp d = now
                \<and> detail_reference d = generateReferenceId year rnd"
    if "screen s' \<noteq> Confirm" "enabled s' ev" "screen (handle cam ev s') = Confirm" for s' ev
    using that
    by (cases ev)
       (auto simp: enabled_def gotoButton_def handle_def handleLogin_def handleBack_def handleContinueToConfirm_def
          handleFingerprint_def handleBottomNav_def handleStartQrScan_def runTask_def finalizeTransfer_def
          stopCameraStream_def Let_def split: option.splits Task.splits if_splits Screen.splits)
  have fr: "enabled s (ClickGoto Transfer) \<and> enabled s ClickBack
       \<and> handle cam (ClickGoto Transfer) s = s\<lparr>screen := Transfer\<rparr>
       \<and> handle cam ClickBack s = s\<lparr>screen := Transfer\<rparr>
       \<and> draft (handle cam (ClickGoto Transfer) s) = draft s
       \<and> pendingTransfer (handle cam (ClickGoto Transfer) s) = pendingTransfer s"
    using assms by (simp add: enabled_def gotoButton_def handle_def handleBack_def)
  from fr re show ?thesis by blast
qed

theorem cancel_confirm_frame_witness:
  "screen confirmState = Confirm
   \<and> handle True (ClickGoto Transfer) confirmState = confirmState\<lparr>screen := Transfer\<rparr>
   \<and> draft (handle True (ClickGoto Transfer) confirmState)
        = \<lparr>draft_recipient = ''Asha'', draft_amount = ''2000'', draft_note = ''lunch''\<rparr>
   \<and> screen (handle True (ClickGoto Transfer) confirmState) \<noteq> Confirm
   \<and> screen (handle True (ClickContinue 3000 2026 (1 / 2)) (handle True (ClickGoto Transfer) confirmState)) = Confirm
   \<and> pendingTransfer (handle True (ClickContinue 3000 2026 (1 / 2)) (handle True (ClickGoto Transfer) confirmState))
        = Some (scenarioDetail\<lparr>detail_timestamp := 3000\<rparr>)"
proof -
  have 1: "screen confirmState = Confirm" by (simp add: confirmState_eq)
  note t = cancel_confirm_frame[OF 1, of True]
  from t have 2: "handle True (ClickGoto Transfer) confirmState = confirmState\<lparr>screen := Transfer\<rparr>"
    by blast
  have 3: "draft (handle True (ClickGoto Transfer) confirmState)
        = \<lparr>draft_recipient = ''Asha'', draft_amount = ''2000'', draft_note = ''lunch''\<rparr>"
    unfolding 2 by (simp add: confirmState_eq scenario_eval)
  have 4: "screen (handle True (ClickGoto Transfer) confirmState) \<noteq> Confirm" unfolding 2 by simp
  have 5: "handle True (ClickContinue 3000 2026 (1 / 2)) (handle True (ClickGoto Transfer) confirmState)
      = scenarioState\<lparr>pendingTransfer := Some (scenarioDetail\<lparr>detail_timestamp := 3000\<rparr>), screen := Confirm\<rparr>"
    unfolding 2
    by (simp add: confirmState_eq handle_def scenario_eval handleContinueToConfirm_def Let_def
      number_eval string_eval js_truthy_def js_le_def js_greater_def reference_2026 scenarioDetail_def
      arith_eval)
  from 1 2 3 4 show ?thesis unfolding 5 by simp
qed

text \<open>
  The claim as it is worded has the pending detail discarded by the cancellation.  After
  Cancel, and after the back button, the detail of the scenario is still pending.
\<close>

theorem cancel_keeps_pending_counterexample:
  "screen confirmState = Confirm
   \<and> enabled confirmState (ClickGoto Transfer)
   \<and> screen (step True (ClickGoto Transfer) confirmState) = Transfer
   \<and> pendingTransfer (step True (ClickGoto Transfer) confirmState) = Some scenarioDetail
   \<and> pendingTransfer (step True (ClickGoto Transfer) confirmState) \<noteq> None
   \<and> pendingTransfer (step True ClickBack confirmState) \<noteq> None"
  by (simp add: confirmState_eq step_eval scenario_eval enabled_def gotoButton_def handleBack_def)

section \<open>The login guard (claim C8)\<close>

text \<open>
  Claim C8.  While nobody is logged in, \<^verbatim>\<open>handleBottomNav\<close> changes nothing, the guard
  of \<^verbatim>\<open>renderScreen\<close> puts the screen back to \<open>login\<close>, and in every reachable state
  with an empty user name the screen is \<open>login\<close>; no handler that a reachable state
  offers leaves a logged-out session on another screen, even before the guard runs.
\<close>

theorem logged_out_screen_is_login:
  "(userName s = [] \<longrightarrow> handleBottomNav next s = s)
   \<and> (userName s = [] \<longrightarrow> screen (renderScreen s) = Login)
   \<and> (reachable cam s \<longrightarrow> userName s = [] \<longrightarrow> screen s = Login)
   \<and> (reachable cam s \<longrightarrow> enabled s ev \<longrightarrow> userName (handle cam ev s) = [] \<longrightarrow>
         screen (handle cam ev s) = Login)"
proof -
  have 1: "userName s = [] \<longrightarrow> handleBottomNav next s = s"
    by (simp add: handleBottomNav_def isLoggedIn_def)
  have 2: "userName s = [] \<longrightarrow> screen (renderScreen s) = Login"
    by (simp add: renderScreen_def isLoggedIn_def)
  have 3: "reachable cam s \<longrightarrow> userName s = [] \<longrightarrow> screen s = Login"
    using reachable_loggedOutInv[of cam s] by (auto simp: loggedOutInv_def isLoggedIn_def)
  have 4: "reachable cam s \<longrightarrow> enabled s ev \<longrightarrow> userName (handle cam ev s) = [] \<longrightarrow>
         screen (handle cam ev s) = Login"
    using loggedOutInv_handle[OF reachable_loggedOutInv, of cam s ev cam]
    by (auto simp: loggedOutInv_def isLoggedIn_def)
  from 1 2 3 4 show ?thesis by blast
qed

theorem logged_out_screen_is_login_witness:
  "userName (initialState 0) = [] \<and> reachable True (initialState 0)
   \<and> enabled (initialState 0) (ClickBottomNav Transfer)
   \<and> userName (handle True (ClickBottomNav Transfer) (initialState 0)) = []
   \<and> handleBottomNav Transfer (initialState 0) = initialState 0
   \<and> screen (renderScreen (initialState 0)) = Login
   \<and> screen (initialState 0) = Login
   \<and> screen (handle True (ClickBottomNav Transfer) (initialState 0)) = Login"
proof -
  note t = logged_out_screen_is_login[of "initialState 0" Transfer True "ClickBottomNav Transfer"]
  have u: "userName (initialState 0) = []" by (simp add: initialState_def)
  have r: "reachable True (initialState 0)" by (rule reachable_init)
  have e: "enabled (initialState 0) (ClickBottomNav Transfer)" by (simp add: enabled_def)
  have h: "userName (handle True (ClickBottomNav Transfer) (initialState 0)) = []"
    by (simp add: handle_def handleBottomNav_def isLoggedIn_def initialState_def)
  from t u r e h show ?thesis by blast
qed

section \<open>The history view (claim C9)\<close>

text \<open>
  Claim C9, as the code has it.  The history view is a filter of the history, hence an
  order-preserving subsequence of it, and the history itself is not changed.  An entry
  is kept when the direction filter is \<open>all\<close> or equals the entry's direction, and the
  query is blank or the \<^emph>\<open>trimmed\<close> query is, up to case, a substring of the entry's
  recipient or note.  With a blank query, selecting \<open>sent\<close>, then \<open>received\<close>, then
  \<open>all\<close> shows the whole history again.
\<close>

theorem filteredHistory_is_filter:
  "filteredHistory hist flt search =
     filter (\<lambda>e. (flt = FilterAll \<or> flt = FilterOnly (entry_direction e)) \<and>
                 (blank search
                  \<or> sublist (toLowerCase (trim search)) (toLowerCase (entry_recipient e))
                  \<or> sublist (toLowerCase (trim search)) (toLowerCase (entry_note e)))) hist
   \<and> subseq (filteredHistory hist flt search) hist
   \<and> (blank (historySearch s) \<longrightarrow>
        historyView (handle cam (SetHistoryFilter FilterAll)
          (handle cam (SetHistoryFilter (FilterOnly Received))
            (handle cam (SetHistoryFilter (FilterOnly Sent)) s))) = history s)
   \<and> history (handle cam (SetHistoryFilter flt) s) = history s"
proof -
  have eq: "(toLowerCase (trim search) = []) = blank search"
    by (simp add: toLowerCase_def trim_empty_iff)
  have 1: "filteredHistory hist flt search =
     filter (\<lambda>e. (flt = FilterAll \<or> flt = FilterOnly (entry_direction e)) \<and>
                 (blank search
                  \<or> sublist (toLowerCase (trim search)) (toLowerCase (entry_recipient e))
                  \<or> sublist (toLowerCase (trim search)) (toLowerCase (entry_note e)))) hist"
    unfolding filteredHistory_def Let_def str_includes_sublist eq
    by (rule filter_cong) auto
  have 2: "subseq (filteredHistory hist flt search) hist"
    by (simp add: filteredHistory_def Let_def)
  have 3: "blank (historySearch s) \<longrightarrow>
        historyView (handle cam (SetHistoryFilter FilterAll)
          (handle cam (SetHistoryFilter (FilterOnly Received))
            (handle cam (SetHistoryFilter (FilterOnly Sent)) s))) = history s"
    by (simp add: historyView_def handle_def filteredHistory_def Let_def toLowerCase_def trim_empty_iff)
  have 4: "history (handle cam (SetHistoryFilter flt) s) = history s"
    by (simp add: handle_def)
  from 1 2 3 4 show ?thesis by blast
qed

theorem filteredHistory_is_filter_witness:
  "blank (historySearch (initialState 0))
   \<and> filteredHistory (seededHistory 0) (FilterOnly Received) ''  SAL '' = [seededHistory 0 ! 2]
   \<and> historyView (handle True (SetHistoryFilter FilterAll)
          (handle True (SetHistoryFilter (FilterOnly Received))
            (handle True (SetHistoryFilter (FilterOnly Sent)) (initialState 0)))) = seededHistory 0"
  using filteredHistory_is_filter[of "seededHistory 0" "FilterOnly Received" "''  SAL ''" "initialState 0" True]
  by (simp add: seededHistory_def initialState_def string_eval)

text \<open>
  The claim as it is worded takes the query itself, not the trimmed query, as the
  substring.  On the seeded history the query \<open>a\<close> followed by a space shows all three
  entries, and only the second of them contains that query.
\<close>

theorem historyView_query_counterexample:
  "filteredHistory (seededHistory 0) FilterAll ''a '' = seededHistory 0
   \<and> claimed_historyView (seededHistory 0) FilterAll ''a '' = [seededHistory 0 ! 1]
   \<and> filteredHistory (seededHistory 0) FilterAll ''a ''
       \<noteq> claimed_historyView (seededHistory 0) FilterAll ''a ''"
  by (simp add: filteredHistory_def claimed_historyView_def seededHistory_def string_eval
      str_includes_sublist)

section \<open>Scanning without a camera (claim C10)\<close>

text \<open>
  Claim C10.  In a runtime without \<^verbatim>\<open>getUserMedia\<close>, in every reachable state,
  \<^verbatim>\<open>handleStartQrScan\<close> sets the camera status to \<open>error\<close> and the camera error to a
  message that is not empty; the screen does not change, no stream is acquired and no
  request for one is made, the scan result is empty and no timestamp is recorded.
\<close>

theorem startScan_without_camera:
  assumes "reachable False s"
  shows "handleStartQrScan False s =
           s\<lparr>cameraError := ''Camera not supported in this browser.'',
             offlineScanResult := [], cameraStatus := CamError\<rparr>
       \<and> cameraStatus (handleStartQrScan False s) = CamError
       \<and> cameraError (handleStartQrScan False s) \<noteq> []
       \<and> screen (handleStartQrScan False s) = screen s
       \<and> cameraStream (handleStartQrScan False s) = None
       \<and> tasks (handleStartQrScan False s) = tasks s
       \<and> offlineScanResult (handleStartQrScan False s) = []
       \<and> offlineRecordedAt (handleStartQrScan False s) = None
       \<and> handle False ClickStartQrScan s = handleStartQrScan False s"
  using reachable_noCamInv[OF assms]
  by (auto simp: noCamInv_def handleStartQrScan_def handle_def Let_def)

theorem startScan_without_camera_witness:
  "reachable False offlineState \<and> screen offlineState = Offline
   \<and> cameraStatus (handleStartQrScan False offlineState) = CamError
   \<and> cameraError (handleStartQrScan False offlineState) = ''Camera not supported in this browser.''
   \<and> screen (handleStartQrScan False offlineState) = Offline
   \<and> offlineRecordedAt (handleStartQrScan False offlineState) = None"
proof -
  have r: "reachable False offlineState"
    unfolding offlineState_def
    by (intro reachable_step reachable_init[of False 0])
       (simp_all add: enabled_def gotoButton_def step_eval handleLogin_def initialState_def string_eval)
  note t = startScan_without_camera[OF r]
  have s: "screen offlineState = Offline" by (simp add: offlineState_eq)
  from t have "handleStartQrScan False offlineState =
           offlineState\<lparr>cameraError := ''Camera not supported in this browser.'',
             offlineScanResult := [], cameraStatus := CamError\<rparr>" by blast
  then have e: "cameraError (handleStartQrScan False offlineState) = ''Camera not supported in this browser.''"
    by simp
  from t have a: "cameraStatus (handleStartQrScan False offlineState) = CamError" by blast
  from t s have b: "screen (handleStartQrScan False offlineState) = Offline" by metis
  from t have c: "offlineRecordedAt (handleStartQrScan False offlineState) = None" by blast
  from r s a e b c show ?thesis by (intro conjI)
qed

end
